theory Spec2Isabelle
  imports Main
begin

section \<open>Strings and bytes\<close>

text \<open>
  Go strings are byte sequences; they are modelled as \<open>string\<close> (a list of 8-bit
  characters).  \<open>byte c\<close> is the numeric value of a byte, used wherever the Go
  code compares bytes with \<open><\<close> or does arithmetic on them.
\<close>

definition byte :: "char \<Rightarrow> nat" where
  "byte c = of_char c"

definition HasPrefix :: "string \<Rightarrow> string \<Rightarrow> bool" where
  \<comment> \<open>\<open>strings.HasPrefix(s, prefix)\<close>\<close>
  "HasPrefix s pre = (length pre \<le> length s \<and> take (length pre) s = pre)"


definition isLower :: "char \<Rightarrow> bool" where
  "isLower c = (byte (CHR ''a'') \<le> byte c \<and> byte c \<le> byte (CHR ''z''))"

definition isUpper :: "char \<Rightarrow> bool" where
  "isUpper c = (byte (CHR ''A'') \<le> byte c \<and> byte c \<le> byte (CHR ''Z''))"

definition isDigit :: "char \<Rightarrow> bool" where
  "isDigit c = (byte (CHR ''0'') \<le> byte c \<and> byte c \<le> byte (CHR ''9''))"

function decimal :: "nat \<Rightarrow> string" where
  \<comment> \<open>the decimal digits of a number\<close>
  "decimal n = (if n < 10 then [char_of (48 + n)] else decimal (n div 10) @ [char_of (48 + n mod 10)])"
  by pat_completeness auto
termination
  by (relation "measure id") auto

declare decimal.simps [simp del]

definition Itoa :: "int \<Rightarrow> string" where
  \<comment> \<open>an \<open>int\<close> as \<open>fmt\<close> prints it with \<open>%v\<close>\<close>
  "Itoa i = (if i < 0 then ''-'' @ decimal (nat (- i)) else decimal (nat i))"


section \<open>net/http as the handlers of this repository use it\<close>

text \<open>
  The repository's handlers are written against the interfaces of Go's standard
  library.  The library is the semantics of the language the program is written in; the
  parts the program calls are written down here after \<open>net/http\<close>,
  \<open>net/textproto\<close>, \<open>path\<close> and \<open>time\<close> of go1.17 (the release
  the comments of \<open>concepts/net/http/main.go\<close> link to).  One function has
  changed since in a way a handler can observe: from go1.19 on
  \<open>response.WriteHeader\<close> sends a status 1xx other than 101 as an interim
  response and leaves the status of the response open.  \<open>WriteHeader\<close> is written
  down as it is since go1.19.
\<close>

subsection \<open>Headers\<close>

type_synonym Header = "string \<rightharpoonup> string list"

definition validHeaderFieldByte :: "char \<Rightarrow> bool" where
  \<comment> \<open>the token characters of RFC 7230\<close>
  "validHeaderFieldByte c =
     (isLower c \<or> isUpper c \<or> isDigit c \<or> c \<in> set ''!#$%&*+-.^_`|~'' \<or> c = CHR 0x27)"

definition canonicalByte :: "bool \<Rightarrow> char \<Rightarrow> char" where
  "canonicalByte upper c =
     (if upper \<and> isLower c then char_of (byte c - 32)
      else if \<not> upper \<and> isUpper c then char_of (byte c + 32)
      else c)"

fun canonicalBytes :: "bool \<Rightarrow> string \<Rightarrow> string" where
  \<comment> \<open>the second loop of \<open>textproto.canonicalMIMEHeaderKey\<close>: upper case for the
      first letter and after each dash, lower case elsewhere\<close>
  "canonicalBytes upper [] = []"
| "canonicalBytes upper (c # cs) =
     canonicalByte upper c # canonicalBytes (canonicalByte upper c = CHR ''-'') cs"

definition CanonicalMIMEHeaderKey :: "string \<Rightarrow> string" where
  \<comment> \<open>a key with a byte that is not a token character is returned unchanged\<close>
  "CanonicalMIMEHeaderKey s =
     (if list_all validHeaderFieldByte s then canonicalBytes True s else s)"

definition Header_Get :: "Header \<Rightarrow> string \<Rightarrow> string" where
  \<comment> \<open>\<open>Header.Get\<close>: the first value of the canonical key, \<open>""\<close> when there is none\<close>
  "Header_Get hdr key =
     (case hdr (CanonicalMIMEHeaderKey key) of
        None \<Rightarrow> []
      | Some [] \<Rightarrow> []
      | Some (v # _) \<Rightarrow> v)"

definition Header_Set :: "Header \<Rightarrow> string \<Rightarrow> string \<Rightarrow> Header" where
  "Header_Set hdr key v = hdr(CanonicalMIMEHeaderKey key \<mapsto> [v])"

subsection \<open>Requests\<close>

record URL =
  URL_Host :: string
  Path :: string
  RawPath :: string
  RawQuery :: string

record Request =
  Method :: string
  URL :: URL
  ProtoMajor :: nat
  ProtoMinor :: nat
  Header :: Header
  Host :: string
  RequestURI :: string

definition ProtoAtLeast :: "Request \<Rightarrow> nat \<Rightarrow> nat \<Rightarrow> bool" where
  "ProtoAtLeast r major minor =
     (ProtoMajor r > major \<or> (ProtoMajor r = major \<and> ProtoMinor r \<ge> minor))"

subsection \<open>The process state a handler runs in\<close>

text \<open>
  A handler receives the \<open>http.ResponseWriter\<close> of its request and can read the
  clock (\<open>time.Now\<close>) and write to the standard logger (\<open>log.Printf\<close>).  The
  server's \<open>*response\<close> behind the \<open>ResponseWriter\<close> is the record
  \<open>response\<close>: the header map the handler edits, whether the status line has been
  written, the status, the snapshot of the header taken when it was, the body bytes
  \<open>Write\<close> has accepted so far (what the server sends for a request that is not a
  \<open>HEAD\<close>), and the interim responses sent before the response itself, each with
  its status and header.  The \<open>Content-Length\<close> bookkeeping and hijacking of
  \<open>server.go\<close> are left out: no handler of this repository sets a
  \<open>Content-Length\<close> or hijacks the connection.

  The clock is the sequence of readings \<open>time.Now\<close> will return, in nanoseconds,
  with the number of readings taken so far.
\<close>

record response =
  handlerHeader :: Header
  wroteHeader :: bool
  status :: int
  cw_header :: Header
  body :: string
  interim :: "(int \<times> Header) list"

datatype log_arg = ArgString string | ArgDuration int

type_synonym log_entry = "string \<times> log_arg list"

record State =
  resp :: response
  clock :: "nat \<Rightarrow> int"
  ticks :: nat
  logs :: "log_entry list"

datatype outcome = Returned | Panicked string

type_synonym Handler = "Request \<Rightarrow> State \<Rightarrow> outcome \<times> State"

definition newResponse :: response where
  "newResponse = \<lparr>handlerHeader = Map.empty, wroteHeader = False, status = 0,
                   cw_header = Map.empty, body = [], interim = []\<rparr>"

definition Printf :: "string \<Rightarrow> log_arg list \<Rightarrow> State \<Rightarrow> State" where
  \<comment> \<open>\<open>log.Printf\<close>: one record appended to the standard logger's output\<close>
  "Printf format args s = s\<lparr>logs := logs s @ [(format, args)]\<rparr>"

definition Now :: "State \<Rightarrow> int \<times> State" where
  \<comment> \<open>\<open>time.Now\<close>: the next reading of the clock\<close>
  "Now s = (clock s (ticks s), s\<lparr>ticks := Suc (ticks s)\<rparr>)"

definition maxDuration :: int where
  "maxDuration = 2 ^ 63 - 1"

definition minDuration :: int where
  "minDuration = - (2 ^ 63)"

definition Time_Sub :: "int \<Rightarrow> int \<Rightarrow> int" where
  \<comment> \<open>\<open>t.Sub(u)\<close>: the \<open>Duration\<close> \<open>t - u\<close>, saturated to the range of an
      \<open>int64\<close>\<close>
  "Time_Sub t u =
     (let d = t - u in
      if d > maxDuration then maxDuration else if d < minDuration then minDuration else d)"

subsection \<open>The response writer\<close>

definition StatusSwitchingProtocols :: int where "StatusSwitchingProtocols = 101"
definition StatusOK :: int where "StatusOK = 200"
definition StatusAccepted :: int where "StatusAccepted = 202"
definition StatusMovedPermanently :: int where "StatusMovedPermanently = 301"
definition StatusBadRequest :: int where "StatusBadRequest = 400"
definition StatusUnauthorized :: int where "StatusUnauthorized = 401"
definition StatusNotFound :: int where "StatusNotFound = 404"

datatype write_error = ErrBodyNotAllowed

definition informational :: "int \<Rightarrow> bool" where
  \<comment> \<open>a status that \<open>WriteHeader\<close> sends as an interim response\<close>
  "informational code = (100 \<le> code \<and> code \<le> 199 \<and> code \<noteq> StatusSwitchingProtocols)"

definition excludedHeadersNoBody :: "Header \<Rightarrow> Header" where
  \<comment> \<open>\<open>WriteSubset(w, excludedHeadersNoBody)\<close>: the header without the fields
      that describe a body\<close>
  "excludedHeadersNoBody hdr = hdr(''Content-Length'' := None, ''Transfer-Encoding'' := None)"

definition WriteHeader :: "int \<Rightarrow> State \<Rightarrow> outcome \<times> State" where
  \<comment> \<open>\<open>response.WriteHeader\<close>: once the status is written a call is logged (on a
      server without \<open>ErrorLog\<close>, to the standard logger; the caller it names is
      not modelled) and ignored; a code outside 100..999 panics
      (\<open>checkWriteHeaderCode\<close>); a status 1xx other than 101 is sent at once as an
      interim response, with the header as it is, and the status stays open; any other
      code fixes the status and the header map is snapshotted\<close>
  "WriteHeader code s =
     (if wroteHeader (resp s)
      then (Returned, Printf ''http: superfluous response.WriteHeader call from %s (%s:%d)'' [] s)
      else if code < 100 \<or> code > 999 then (Panicked (''invalid WriteHeader code '' @ Itoa code), s)
      else if informational code
      then (Returned,
            s\<lparr>resp := (resp s)\<lparr>interim := interim (resp s) @
                                    [(code, excludedHeadersNoBody (handlerHeader (resp s)))]\<rparr>\<rparr>)
      else (Returned,
            s\<lparr>resp := (resp s)\<lparr>wroteHeader := True, status := code,
                                  cw_header := handlerHeader (resp s)\<rparr>\<rparr>))"

definition bodyAllowedForStatus :: "int \<Rightarrow> bool" where
  "bodyAllowedForStatus st = (\<not> (100 \<le> st \<and> st \<le> 199) \<and> st \<noteq> 204 \<and> st \<noteq> 304)"

definition Write :: "string \<Rightarrow> State \<Rightarrow> (nat \<times> write_error option) \<times> State" where
  \<comment> \<open>\<open>response.Write\<close>: an implicit \<open>WriteHeader(StatusOK)\<close> when no status
      was written, then the bytes are appended to the body if the status allows one\<close>
  "Write bs s =
     (let s1 = (if wroteHeader (resp s) then s else snd (WriteHeader StatusOK s)) in
      if bs = [] then ((0, None), s1)
      else if \<not> bodyAllowedForStatus (status (resp s1)) then ((0, Some ErrBodyNotAllowed), s1)
      else ((length bs, None), s1\<lparr>resp := (resp s1)\<lparr>body := body (resp s1) @ bs\<rparr>\<rparr>))"

definition SetHeader :: "string \<Rightarrow> string \<Rightarrow> State \<Rightarrow> State" where
  \<comment> \<open>\<open>w.Header().Set(key, value)\<close>: edits the handler's map; the snapshot taken
      by \<open>WriteHeader\<close> is not touched\<close>
  "SetHeader key v s =
     s\<lparr>resp := (resp s)\<lparr>handlerHeader := Header_Set (handlerHeader (resp s)) key v\<rparr>\<rparr>"

definition andThen :: "outcome \<times> State \<Rightarrow> (State \<Rightarrow> outcome \<times> State) \<Rightarrow> outcome \<times> State" where
  \<comment> \<open>sequential composition of two statements: a panic in the first skips the second\<close>
  "andThen r f = (case r of (Returned, s) \<Rightarrow> f s | (Panicked msg, s) \<Rightarrow> (Panicked msg, s))"

definition Error :: "string \<Rightarrow> int \<Rightarrow> State \<Rightarrow> outcome \<times> State" where
  \<comment> \<open>\<open>http.Error(w, error, code)\<close>; \<open>fmt.Fprintln\<close> writes the message and a newline\<close>
  "Error msg code s =
     andThen (WriteHeader code
                (SetHeader ''X-Content-Type-Options'' ''nosniff''
                  (SetHeader ''Content-Type'' ''text/plain; charset=utf-8'' s)))
       (\<lambda>s1. (Returned, snd (Write (msg @ ''\<newline>'') s1)))"

definition NotFound :: Handler where
  "NotFound r s = Error ''404 page not found'' StatusNotFound s"

subsection \<open>Paths and hosts\<close>

fun elements :: "string \<Rightarrow> string list" where
  \<comment> \<open>the path elements between the slashes of a path\<close>
  "elements [] = [[]]"
| "elements (c # cs) =
     (if c = CHR ''/'' then [] # elements cs
      else (case elements cs of [] \<Rightarrow> [[c]] | e # es \<Rightarrow> (c # e) # es))"

definition cleanStep :: "string list \<Rightarrow> string \<Rightarrow> string list" where
  \<comment> \<open>one element of a rooted path in \<open>path.Clean\<close>: an empty element and \<open>.\<close>
      are dropped, \<open>..\<close> removes the element before it (nothing at the root), any
      other element is kept\<close>
  "cleanStep out e =
     (if e = [] \<or> e = ''.'' then out else if e = ''..'' then butlast out else out @ [e])"

fun joinElements :: "string list \<Rightarrow> string" where
  "joinElements [] = []"
| "joinElements [e] = e"
| "joinElements (e # es) = e @ ''/'' @ joinElements es"

definition Clean_rooted :: "string \<Rightarrow> string" where
  \<comment> \<open>\<open>path.Clean\<close> on a path that starts with a slash (the only paths
      \<open>cleanPath\<close> passes to it)\<close>
  "Clean_rooted p = ''/'' @ joinElements (foldl cleanStep [] (elements p))"

definition cleanPath :: "string \<Rightarrow> string" where
  \<comment> \<open>\<open>cleanPath\<close> of \<open>net/http/server.go\<close>: the canonical path, keeping a
      trailing slash\<close>
  "cleanPath p =
     (if p = [] then ''/''
      else
        let p1 = (if hd p \<noteq> CHR ''/'' then ''/'' @ p else p);
            np = Clean_rooted p1
        in if last p1 = CHR ''/'' \<and> np \<noteq> ''/''
           then (if length p1 = length np + 1 \<and> HasPrefix p1 np then p1 else np @ ''/'')
           else np)"

fun IndexByte :: "string \<Rightarrow> char \<Rightarrow> nat option" where
  "IndexByte [] c = None"
| "IndexByte (x # xs) c =
     (if x = c then Some 0 else map_option Suc (IndexByte xs c))"

fun LastIndexByte :: "string \<Rightarrow> char \<Rightarrow> nat option" where
  "LastIndexByte [] c = None"
| "LastIndexByte (x # xs) c =
     (case LastIndexByte xs c of
        Some i \<Rightarrow> Some (Suc i)
      | None \<Rightarrow> if x = c then Some 0 else None)"

definition SplitHostPort :: "string \<Rightarrow> (string \<times> string) option" where
  \<comment> \<open>\<open>net.SplitHostPort\<close>; \<open>None\<close> stands for its error results\<close>
  "SplitHostPort hostport =
     (case LastIndexByte hostport (CHR '':'') of
        None \<Rightarrow> None
      | Some i \<Rightarrow>
          let finish = (\<lambda>host j k.
                 if IndexByte (drop j hostport) (CHR ''['') \<noteq> None then None
                 else if IndexByte (drop k hostport) (CHR '']'') \<noteq> None then None
                 else Some (host, drop (i + 1) hostport))
          in if hd hostport = CHR ''[''
             then (case IndexByte hostport (CHR '']'') of
                     None \<Rightarrow> None
                   | Some e \<Rightarrow>
                       if e + 1 = length hostport then None
                       else if e + 1 = i then finish (take (e - 1) (drop 1 hostport)) 1 (e + 1)
                       else None)
             else let host = take i hostport
                  in if IndexByte host (CHR '':'') \<noteq> None then None else finish host 0 0)"

definition stripHostPort :: "string \<Rightarrow> string" where
  "stripHostPort h =
     (if CHR '':'' \<notin> set h then h
      else (case SplitHostPort h of None \<Rightarrow> h | Some (host, port) \<Rightarrow> host))"

subsection \<open>Redirects\<close>

definition htmlEscape :: "string \<Rightarrow> string" where
  "htmlEscape s =
     concat (map (\<lambda>c. if c = CHR ''&'' then ''&amp;''
                       else if c = CHR ''<'' then ''&lt;''
                       else if c = CHR ''>'' then ''&gt;''
                       else if c = CHR 0x22 then ''&#34;''
                       else if c = CHR 0x27 then ''&#39;''
                       else [c]) s)"

definition URL_String :: "URL \<Rightarrow> string" where
  \<comment> \<open>\<open>u.String()\<close> for a URL with a path and a query only; the percent-escaping
      of the path is not modelled\<close>
  "URL_String u = Path u @ (if RawQuery u = [] then [] else ''?'' @ RawQuery u)"

definition RedirectHandler :: "string \<Rightarrow> Handler" where
  \<comment> \<open>\<open>RedirectHandler(url, StatusMovedPermanently)\<close>, the only redirect the
      multiplexer issues, for a target that starts with a slash: the \<open>Location\<close>
      header, the status, and for a \<open>GET\<close> the short HTML body.  \<open>http.Redirect\<close>
      cleans the target once more and escapes its bytes outside ASCII; neither is
      modelled.\<close>
  "RedirectHandler url r s =
     (let hadCT = (handlerHeader (resp s) ''Content-Type'' \<noteq> None);
          s1 = SetHeader ''Location'' url s;
          s2 = (if \<not> hadCT \<and> (Method r = ''GET'' \<or> Method r = ''HEAD'')
                then SetHeader ''Content-Type'' ''text/html; charset=utf-8'' s1 else s1)
      in andThen (WriteHeader StatusMovedPermanently s2)
           (\<lambda>s3. if \<not> hadCT \<and> Method r = ''GET''
                  then (Returned,
                        snd (Write (''<a href='' @ [CHR 0x22] @ htmlEscape url @ [CHR 0x22]
                                    @ ''>Moved Permanently</a>.\<newline>\<newline>'') s3))
                  else (Returned, s3)))"

subsection \<open>ServeMux\<close>

text \<open>
  The multiplexer of go1.17: the map \<open>m\<close> from patterns to entries, the slice
  \<open>es\<close> of the entries whose pattern ends in a slash, longest first, and the flag
  \<open>hosts\<close> that says that some pattern does not start with a slash.
\<close>

record muxEntry =
  entry_h :: Handler
  entry_pattern :: string

record ServeMux =
  mux_m :: "string \<rightharpoonup> muxEntry"
  mux_es :: "muxEntry list"
  mux_hosts :: bool

definition NewServeMux :: ServeMux where
  "NewServeMux = \<lparr>mux_m = Map.empty, mux_es = [], mux_hosts = False\<rparr>"

fun appendSorted :: "muxEntry list \<Rightarrow> muxEntry \<Rightarrow> muxEntry list" where
  \<comment> \<open>the entry goes before the first entry with a strictly shorter pattern\<close>
  "appendSorted [] e = [e]"
| "appendSorted (x # xs) e =
     (if length (entry_pattern x) < length (entry_pattern e) then e # x # xs
      else x # appendSorted xs e)"

definition Handle :: "string \<Rightarrow> Handler \<Rightarrow> ServeMux \<Rightarrow> string + ServeMux" where
  \<comment> \<open>\<open>mux.Handle(pattern, handler)\<close>; \<open>Inl\<close> is the message of its panic.  (The
      panic on a nil handler has no counterpart: every handler here is a function.)\<close>
  "Handle pat handler mux =
     (if pat = [] then Inl ''http: invalid pattern''
      else if mux_m mux pat \<noteq> None then Inl (''http: multiple registrations for '' @ pat)
      else
        let e = \<lparr>entry_h = handler, entry_pattern = pat\<rparr>
        in Inr (mux\<lparr>mux_m := (mux_m mux)(pat \<mapsto> e),
                     mux_es := (if last pat = CHR ''/'' then appendSorted (mux_es mux) e
                                else mux_es mux),
                     mux_hosts := (mux_hosts mux \<or> hd pat \<noteq> CHR ''/'')\<rparr>))"

definition HandleFunc :: "string \<Rightarrow> Handler \<Rightarrow> ServeMux \<Rightarrow> string + ServeMux" where
  "HandleFunc pat handler mux = Handle pat handler mux"

definition thenRegister ::
  "string + ServeMux \<Rightarrow> (ServeMux \<Rightarrow> string + ServeMux) \<Rightarrow> string + ServeMux" where
  \<comment> \<open>the next statement of a function that builds a multiplexer: a panic ends it\<close>
  "thenRegister x f = (case x of Inl msg \<Rightarrow> Inl msg | Inr mux \<Rightarrow> f mux)"


fun match_es :: "muxEntry list \<Rightarrow> string \<Rightarrow> muxEntry option" where
  "match_es [] path = None"
| "match_es (e # es) path =
     (if HasPrefix path (entry_pattern e) then Some e else match_es es path)"

definition ServeMux_match :: "ServeMux \<Rightarrow> string \<Rightarrow> muxEntry option" where
  \<comment> \<open>\<open>mux.match(path)\<close>: an exact match first, then the longest pattern ending
      in a slash that is a prefix of the path; \<open>None\<close> for a nil handler\<close>
  "ServeMux_match mux path =
     (case mux_m mux path of Some v \<Rightarrow> Some v | None \<Rightarrow> match_es (mux_es mux) path)"

definition ServeMux_handler :: "ServeMux \<Rightarrow> string \<Rightarrow> string \<Rightarrow> Handler \<times> string" where
  \<comment> \<open>\<open>mux.handler(host, path)\<close>: host-specific patterns first, the 404 handler
      when nothing matches\<close>
  "ServeMux_handler mux host path =
     (let found = (case (if mux_hosts mux then ServeMux_match mux (host @ path) else None) of
                     Some e \<Rightarrow> Some e
                   | None \<Rightarrow> ServeMux_match mux path)
      in case found of
           Some e \<Rightarrow> (entry_h e, entry_pattern e)
         | None \<Rightarrow> (NotFound, []))"

definition shouldRedirectRLocked :: "ServeMux \<Rightarrow> string \<Rightarrow> string \<Rightarrow> bool" where
  "shouldRedirectRLocked mux host path =
     (if mux_m mux path \<noteq> None \<or> mux_m mux (host @ path) \<noteq> None then False
      else if path = [] then False
      else if mux_m mux (path @ ''/'') \<noteq> None \<or> mux_m mux (host @ path @ ''/'') \<noteq> None
           then last path \<noteq> CHR ''/''
      else False)"

definition redirectToPathSlash :: "ServeMux \<Rightarrow> string \<Rightarrow> string \<Rightarrow> URL \<Rightarrow> URL option" where
  \<comment> \<open>\<open>Some u\<close> is the result \<open>(u, true)\<close>\<close>
  "redirectToPathSlash mux host path u =
     (if shouldRedirectRLocked mux host path
      then Some \<lparr>URL_Host = [], Path = path @ ''/'', RawPath = [], RawQuery = RawQuery u\<rparr>
      else None)"

definition ServeMux_Handler :: "ServeMux \<Rightarrow> Request \<Rightarrow> Handler \<times> string" where
  \<comment> \<open>\<open>mux.Handler(r)\<close>: the handler for the request and the pattern it matched\<close>
  "ServeMux_Handler mux r =
     (if Method r = ''CONNECT''
      then (case redirectToPathSlash mux (URL_Host (URL r)) (Path (URL r)) (URL r) of
              Some u \<Rightarrow> (RedirectHandler (URL_String u), Path u)
            | None \<Rightarrow> ServeMux_handler mux (Host r) (Path (URL r)))
      else
        let host = stripHostPort (Host r);
            path = cleanPath (Path (URL r))
        in case redirectToPathSlash mux host path (URL r) of
             Some u \<Rightarrow> (RedirectHandler (URL_String u), Path u)
           | None \<Rightarrow>
               if path \<noteq> Path (URL r)
               then (RedirectHandler
                       (URL_String \<lparr>URL_Host = [], Path = path, RawPath = [],
                                    RawQuery = RawQuery (URL r)\<rparr>),
                     snd (ServeMux_handler mux host path))
               else ServeMux_handler mux host (Path (URL r)))"

definition ServeMux_ServeHTTP :: "ServeMux \<Rightarrow> Handler" where
  \<comment> \<open>\<open>mux.ServeHTTP(w, r)\<close>: the handler found is called with the request as it
      came in\<close>
  "ServeMux_ServeHTTP mux r s =
     (if RequestURI r = ''*''
      then WriteHeader StatusBadRequest
             (if ProtoAtLeast r 1 1 then SetHeader ''Connection'' ''close'' s else s)
      else fst (ServeMux_Handler mux r) r s)"


subsection \<open>One request on the server\<close>

definition serverHandler_ServeHTTP :: "Handler \<Rightarrow> Handler" where
  \<comment> \<open>\<open>serverHandler.ServeHTTP\<close> for a server whose \<open>Handler\<close> field is set:
      \<open>OPTIONS *\<close> goes to \<open>globalOptionsHandler\<close>, everything else to the handler\<close>
  "serverHandler_ServeHTTP handler r s =
     (if RequestURI r = ''*'' \<and> Method r = ''OPTIONS''
      then (Returned, SetHeader ''Content-Length'' ''0'' s)
      else handler r s)"

definition finishRequest :: "State \<Rightarrow> outcome \<times> State" where
  \<comment> \<open>a handler that returned without writing anything gets the status 200\<close>
  "finishRequest s = (if wroteHeader (resp s) then (Returned, s) else WriteHeader StatusOK s)"

definition serve :: "Handler \<Rightarrow> Request \<Rightarrow> State \<Rightarrow> outcome \<times> State" where
  \<comment> \<open>the server's work for one request: a fresh response, the handler, the end of
      the request.  A panic of the handler ends the connection; what the server does
      with it is not modelled beyond the outcome.\<close>
  "serve handler r s =
     andThen (serverHandler_ServeHTTP handler r (s\<lparr>resp := newResponse\<rparr>)) finishRequest"

section \<open>concepts/net/http/main.go: the handler NewHandler\<close>

definition NewHandler_ServeHTTP :: Handler where
  "NewHandler_ServeHTTP r s =
     andThen (WriteHeader StatusAccepted s)
       (\<lambda>s1. (Returned, snd (Write ''Hello, world!\<newline>'' s1)))"

section \<open>concepts/net/http/main.go: the middleware\<close>

text \<open>
  A handler is passed its request by value here: Go's handler contract forbids a handler
  to modify the \<open>*http.Request\<close> it is given, so what \<open>r\<close> holds after the inner
  handler has run is what it held before.
\<close>

definition RequestTimer :: "Handler \<Rightarrow> Handler" where
  "RequestTimer h r s =
     (let (start, s1) = Now s in
      andThen (h r s1)
        (\<lambda>s2. let (endt, s3) = Now s2 in
           (Returned,
            Printf ''request time for %ss: %v''
              [ArgString (Path (URL r)), ArgDuration (Time_Sub endt start)] s3)))"

definition securityMsg :: string where
  "securityMsg = ''You didn't give the secret password\<newline>''"

definition TerribleSecurityProvider :: "string \<Rightarrow> Handler \<Rightarrow> Handler" where
  "TerribleSecurityProvider password h r s =
     (if Header_Get (Header r) ''X-Secret-Password'' \<noteq> password
      then andThen (WriteHeader StatusUnauthorized s) (\<lambda>s1. (Returned, snd (Write securityMsg s1)))
      else h r s)"

section \<open>concepts/net/http/main.go: the multiplexers\<close>

text \<open>
  The handlers registered are function literals in the source; they are named here after
  what they serve.  \<open>w.Write\<close> is called as a statement: its results are dropped.
\<close>

definition alive :: Handler where
  "alive r s = (Returned, snd (Write ''ok!\<newline>'' s))"

definition ready :: Handler where
  "ready r s = (Returned, snd (Write ''always\<newline>'' s))"

definition newServeMux :: "string + ServeMux" where
  \<comment> \<open>the \<open>Handler\<close> of the server \<open>newServeMux\<close> starts, or the panic of a
      registration\<close>
  "newServeMux =
     thenRegister (HandleFunc ''/alive'' alive NewServeMux) (HandleFunc ''ready'' ready)"






definition hello :: Handler where
  "hello r s = (Returned, snd (Write ''Hello, world!\<newline>'' s))"

definition muxWithMiddleware :: "string + ServeMux" where
  \<comment> \<open>the value of \<open>mux\<close> at the end of \<open>muxWithMiddleware\<close>\<close>
  "muxWithMiddleware =
     Handle ''/hello'' (TerribleSecurityProvider ''PASSWORD'' (RequestTimer hello)) NewServeMux"

section \<open>Middleware chains\<close>

text \<open>
  \<open>muxWithMiddleware\<close> nests its middleware by hand, \<open>ts(RequestTimer(h))\<close>.
  \<open>chain [M1, ..., Mn] h\<close> is the nesting \<open>M1(M2(...Mn(h)))\<close> of the two
  middlewares of the file.
\<close>


datatype middleware = Timing | Auth string

fun wrap :: "middleware \<Rightarrow> Handler \<Rightarrow> Handler" where
  "wrap Timing h = RequestTimer h"
| "wrap (Auth password) h = TerribleSecurityProvider password h"

definition chain :: "middleware list \<Rightarrow> Handler \<Rightarrow> Handler" where
  "chain ms h = foldr wrap ms h"

text \<open>
  The description to compare the nesting with: the pre-phases run in the order of the
  list (a timer reads its start time, an authorization check inspects the header and
  rejects the request or lets it pass), then the inner handler runs unless a check
  rejected the request, then the post-phases of the timers that were entered run in
  reverse order, each reading its end time and emitting its record.  A panic skips the
  post-phases that are left.
\<close>

definition timerPost :: "int \<Rightarrow> Request \<Rightarrow> State \<Rightarrow> outcome \<times> State" where
  \<comment> \<open>the post-phase of a timer that read \<open>start\<close>\<close>
  "timerPost start r s2 =
     (let (endt, s3) = Now s2 in
      (Returned,
       Printf ''request time for %ss: %v''
         [ArgString (Path (URL r)), ArgDuration (Time_Sub endt start)] s3))"

definition reject :: "State \<Rightarrow> outcome \<times> State" where
  \<comment> \<open>what a failed authorization check writes\<close>
  "reject s = andThen (WriteHeader StatusUnauthorized s) (\<lambda>s1. (Returned, snd (Write securityMsg s1)))"

fun pre_phases :: "middleware list \<Rightarrow> Request \<Rightarrow> State \<Rightarrow> int list \<times> bool \<times> State" where
  "pre_phases [] r s = ([], False, s)"
| "pre_phases (Timing # ms) r s =
     (let (start, s1) = Now s;
          (starts, rejected, s2) = pre_phases ms r s1
      in (start # starts, rejected, s2))"
| "pre_phases (Auth password # ms) r s =
     (if Header_Get (Header r) ''X-Secret-Password'' \<noteq> password then ([], True, s)
      else pre_phases ms r s)"

fun post_phases :: "int list \<Rightarrow> Request \<Rightarrow> outcome \<times> State \<Rightarrow> outcome \<times> State" where
  "post_phases [] r out = out"
| "post_phases (start # starts) r out = post_phases starts r (andThen out (timerPost start r))"

definition phased :: "middleware list \<Rightarrow> Handler \<Rightarrow> Handler" where
  "phased ms h r s =
     (let (starts, rejected, s1) = pre_phases ms r s in
      post_phases (rev starts) r (if rejected then reject s1 else h r s1))"

section \<open>Concrete inputs\<close>

definition panicking :: Handler where
  \<comment> \<open>a handler whose body is \<open>panic("boom")\<close>\<close>
  "panicking r s = (Panicked ''boom'', s)"

definition exampleRequest :: "string \<Rightarrow> string \<Rightarrow> Header \<Rightarrow> Request" where
  \<comment> \<open>the request the server builds for \<open>METHOD path HTTP/1.1\<close> sent to
      \<open>localhost:8000\<close> with the given header\<close>
  "exampleRequest meth p hdr =
     \<lparr>Method = meth,
      URL = \<lparr>URL_Host = [], Path = p, RawPath = [], RawQuery = []\<rparr>,
      ProtoMajor = 1, ProtoMinor = 1, Header = hdr, Host = ''localhost:8000'', RequestURI = p\<rparr>"

definition initState :: State where
  \<comment> \<open>a fresh response, a clock that advances 1000 ns between readings, an empty log\<close>
  "initState = \<lparr>resp = newResponse, clock = (\<lambda>n. 1000 * int n), ticks = 0, logs = []\<rparr>"

section \<open>Calls on the response writer\<close>

text \<open>
  What a handler can do to its \<open>http.ResponseWriter\<close>: \<open>WriteHeader\<close>,
  \<open>Write\<close> and \<open>Header().Set\<close>, in any number and order.
\<close>


datatype sink_call = CallWriteHeader int | CallWrite string | CallSetHeader string string

fun do_call :: "sink_call \<Rightarrow> State \<Rightarrow> outcome \<times> State" where
  "do_call (CallWriteHeader code) s = WriteHeader code s"
| "do_call (CallWrite bs) s = (Returned, snd (Write bs s))"
| "do_call (CallSetHeader k v) s = (Returned, SetHeader k v s)"

fun do_calls :: "sink_call list \<Rightarrow> State \<Rightarrow> outcome \<times> State" where
  \<comment> \<open>the calls in order; a panic ends them\<close>
  "do_calls [] s = (Returned, s)"
| "do_calls (c # cs) s = andThen (do_call c s) (do_calls cs)"


section \<open>The invariant of a multiplexer\<close>




section \<open>Longest match over the registrations\<close>










section \<open>The multiplexers the registrations build\<close>


definition newServeMux_value :: ServeMux where
  "newServeMux_value =
     \<lparr>mux_m = [''/alive'' \<mapsto> \<lparr>entry_h = alive, entry_pattern = ''/alive''\<rparr>,
               ''ready'' \<mapsto> \<lparr>entry_h = ready, entry_pattern = ''ready''\<rparr>],
      mux_es = [], mux_hosts = True\<rparr>"






section \<open>Responses\<close>


definition notFoundResponse :: response where
  \<comment> \<open>the response of \<open>http.NotFound\<close> on a fresh writer\<close>
  "notFoundResponse =
     \<lparr>handlerHeader = [''Content-Type'' \<mapsto> [''text/plain; charset=utf-8''],
                       ''X-Content-Type-Options'' \<mapsto> [''nosniff'']],
      wroteHeader = True, status = 404,
      cw_header = [''Content-Type'' \<mapsto> [''text/plain; charset=utf-8''],
                   ''X-Content-Type-Options'' \<mapsto> [''nosniff'']],
      body = ''404 page not found\<newline>'', interim = []\<rparr>"

definition unauthorizedResponse :: response where
  \<comment> \<open>the response of a failed authorization check on a fresh writer\<close>
  "unauthorizedResponse = newResponse\<lparr>wroteHeader := True, status := 401, body := securityMsg\<rparr>"

definition helloResponse :: response where
  \<comment> \<open>the response of the \<open>hello\<close> handler on a fresh writer\<close>
  "helloResponse = newResponse\<lparr>wroteHeader := True, status := 200, body := ''Hello, world!\<newline>''\<rparr>"

section \<open>encoding/json as marshal uses it\<close>

text \<open>
  \<open>marshal\<close> decodes with a \<open>json.Decoder\<close> that disallows unknown fields.
  What follows is \<open>encoding/json\<close> of go1.17 as far as that call goes: the
  scanner of \<open>scanner.go\<close> state by state, \<open>Decoder.readValue\<close> of
  \<open>stream.go\<close>, \<open>unquoteBytes\<close> with the UTF-8 of \<open>unicode/utf8\<close>, and
  the decoding of a value into a struct with one string field of \<open>decode.go\<close>.
\<close>

subsection \<open>The scanner\<close>

datatype scan_state =
    StateBeginValueOrEmpty | StateBeginValue | StateBeginStringOrEmpty | StateBeginString
  | StateEndValue | StateEndTop
  | StateInString | StateInStringEsc | StateInStringEscU | StateInStringEscU1
  | StateInStringEscU12 | StateInStringEscU123
  | StateNeg | State1 | State0 | StateDot | StateDot0 | StateE | StateESign | StateE0
  | StateT | StateTr | StateTru | StateF | StateFa | StateFal | StateFals
  | StateN | StateNu | StateNul
  | StateError

datatype parse_state = parseObjectKey | parseObjectValue | parseArrayValue

datatype opcode =
    scanContinue | scanBeginLiteral | scanBeginObject | scanObjectKey | scanObjectValue
  | scanEndObject | scanBeginArray | scanArrayValue | scanEndArray | scanSkipSpace
  | scanEnd | scanError

record scanner =
  step :: scan_state
  parseState :: "parse_state list"

text \<open>The innermost composite value is the head of \<open>parseState\<close>.\<close>

definition scanner_reset :: scanner where
  "scanner_reset = \<lparr>step = StateBeginValue, parseState = []\<rparr>"

definition maxNestingDepth :: nat where
  "maxNestingDepth = 10000"

definition isSpace :: "char \<Rightarrow> bool" where
  "isSpace c = (c = CHR '' '' \<or> c = CHR 0x09 \<or> c = CHR 0x0D \<or> c = CHR 0x0A)"

definition isHex :: "char \<Rightarrow> bool" where
  "isHex c = (isDigit c \<or> (byte (CHR ''a'') \<le> byte c \<and> byte c \<le> byte (CHR ''f''))
                        \<or> (byte (CHR ''A'') \<le> byte c \<and> byte c \<le> byte (CHR ''F'')))"

definition scan_error :: "scanner \<Rightarrow> opcode \<times> scanner" where
  \<comment> \<open>\<open>s.error(c, context)\<close>: the syntax error is recorded and the scanner stops\<close>
  "scan_error s = (scanError, s\<lparr>step := StateError\<rparr>)"

definition continue_in :: "scan_state \<Rightarrow> scanner \<Rightarrow> opcode \<times> scanner" where
  \<comment> \<open>\<open>s.step = state; return scanContinue\<close>\<close>
  "continue_in st s = (scanContinue, s\<lparr>step := st\<rparr>)"

definition pushParseState :: "scanner \<Rightarrow> parse_state \<Rightarrow> opcode \<Rightarrow> opcode \<times> scanner" where
  "pushParseState s newParseState successState =
     (let s1 = s\<lparr>parseState := newParseState # parseState s\<rparr>
      in if length (parseState s1) \<le> maxNestingDepth then (successState, s1)
         else scan_error s1)"

definition popParseState :: "scanner \<Rightarrow> scanner" where
  "popParseState s =
     (let rest = tl (parseState s)
      in s\<lparr>parseState := rest, step := (if rest = [] then StateEndTop else StateEndValue)\<rparr>)"

definition stateEndTop :: "scanner \<Rightarrow> char \<Rightarrow> opcode \<times> scanner" where
  \<comment> \<open>after the top-level value; a byte that is not a space is complained about on
      the next call\<close>
  "stateEndTop s c = (if \<not> isSpace c then (scanEnd, s\<lparr>step := StateError\<rparr>) else (scanEnd, s))"

definition stateEndValue :: "scanner \<Rightarrow> char \<Rightarrow> opcode \<times> scanner" where
  "stateEndValue s c =
     (case parseState s of
        [] \<Rightarrow> stateEndTop (s\<lparr>step := StateEndTop\<rparr>) c
      | ps # rest \<Rightarrow>
          if isSpace c then (scanSkipSpace, s\<lparr>step := StateEndValue\<rparr>)
          else (case ps of
                  parseObjectKey \<Rightarrow>
                    if c = CHR '':''
                    then (scanObjectKey,
                          s\<lparr>parseState := parseObjectValue # rest, step := StateBeginValue\<rparr>)
                    else scan_error s
                | parseObjectValue \<Rightarrow>
                    if c = CHR '',''
                    then (scanObjectValue,
                          s\<lparr>parseState := parseObjectKey # rest, step := StateBeginString\<rparr>)
                    else if c = CHR ''}'' then (scanEndObject, popParseState s)
                    else scan_error s
                | parseArrayValue \<Rightarrow>
                    if c = CHR '','' then (scanArrayValue, s\<lparr>step := StateBeginValue\<rparr>)
                    else if c = CHR '']'' then (scanEndArray, popParseState s)
                    else scan_error s))"

definition stateBeginValue :: "scanner \<Rightarrow> char \<Rightarrow> opcode \<times> scanner" where
  "stateBeginValue s c =
     (if isSpace c then (scanSkipSpace, s)
      else if c = CHR ''{''
        then pushParseState (s\<lparr>step := StateBeginStringOrEmpty\<rparr>) parseObjectKey scanBeginObject
      else if c = CHR ''[''
        then pushParseState (s\<lparr>step := StateBeginValueOrEmpty\<rparr>) parseArrayValue scanBeginArray
      else if c = CHR 0x22 then (scanBeginLiteral, s\<lparr>step := StateInString\<rparr>)
      else if c = CHR ''-'' then (scanBeginLiteral, s\<lparr>step := StateNeg\<rparr>)
      else if c = CHR ''0'' then (scanBeginLiteral, s\<lparr>step := State0\<rparr>)
      else if c = CHR ''t'' then (scanBeginLiteral, s\<lparr>step := StateT\<rparr>)
      else if c = CHR ''f'' then (scanBeginLiteral, s\<lparr>step := StateF\<rparr>)
      else if c = CHR ''n'' then (scanBeginLiteral, s\<lparr>step := StateN\<rparr>)
      else if byte (CHR ''1'') \<le> byte c \<and> byte c \<le> byte (CHR ''9'')
        then (scanBeginLiteral, s\<lparr>step := State1\<rparr>)
      else scan_error s)"

definition stateBeginValueOrEmpty :: "scanner \<Rightarrow> char \<Rightarrow> opcode \<times> scanner" where
  "stateBeginValueOrEmpty s c =
     (if isSpace c then (scanSkipSpace, s)
      else if c = CHR '']'' then stateEndValue s c
      else stateBeginValue s c)"

definition stateBeginString :: "scanner \<Rightarrow> char \<Rightarrow> opcode \<times> scanner" where
  "stateBeginString s c =
     (if isSpace c then (scanSkipSpace, s)
      else if c = CHR 0x22 then (scanBeginLiteral, s\<lparr>step := StateInString\<rparr>)
      else scan_error s)"

definition stateBeginStringOrEmpty :: "scanner \<Rightarrow> char \<Rightarrow> opcode \<times> scanner" where
  "stateBeginStringOrEmpty s c =
     (if isSpace c then (scanSkipSpace, s)
      else if c = CHR ''}''
        then stateEndValue (s\<lparr>parseState := parseObjectValue # tl (parseState s)\<rparr>) c
      else stateBeginString s c)"

definition stateInString :: "scanner \<Rightarrow> char \<Rightarrow> opcode \<times> scanner" where
  "stateInString s c =
     (if c = CHR 0x22 then continue_in StateEndValue s
      else if c = CHR 0x5C then continue_in StateInStringEsc s
      else if byte c < 0x20 then scan_error s
      else (scanContinue, s))"

definition stateInStringEsc :: "scanner \<Rightarrow> char \<Rightarrow> opcode \<times> scanner" where
  "stateInStringEsc s c =
     (if c \<in> set ''bfnrt/'' \<or> c = CHR 0x5C \<or> c = CHR 0x22 then continue_in StateInString s
      else if c = CHR ''u'' then continue_in StateInStringEscU s
      else scan_error s)"

definition stateHex :: "scan_state \<Rightarrow> scanner \<Rightarrow> char \<Rightarrow> opcode \<times> scanner" where
  \<comment> \<open>the four states after \<open>\u\<close>: a hexadecimal digit leads to the next one\<close>
  "stateHex next s c = (if isHex c then continue_in next s else scan_error s)"

definition state0 :: "scanner \<Rightarrow> char \<Rightarrow> opcode \<times> scanner" where
  "state0 s c =
     (if c = CHR ''.'' then continue_in StateDot s
      else if c = CHR ''e'' \<or> c = CHR ''E'' then continue_in StateE s
      else stateEndValue s c)"

definition state1 :: "scanner \<Rightarrow> char \<Rightarrow> opcode \<times> scanner" where
  "state1 s c = (if isDigit c then continue_in State1 s else state0 s c)"

definition stateNeg :: "scanner \<Rightarrow> char \<Rightarrow> opcode \<times> scanner" where
  "stateNeg s c =
     (if c = CHR ''0'' then continue_in State0 s
      else if byte (CHR ''1'') \<le> byte c \<and> byte c \<le> byte (CHR ''9'') then continue_in State1 s
      else scan_error s)"

definition stateDot :: "scanner \<Rightarrow> char \<Rightarrow> opcode \<times> scanner" where
  "stateDot s c = (if isDigit c then continue_in StateDot0 s else scan_error s)"

definition stateDot0 :: "scanner \<Rightarrow> char \<Rightarrow> opcode \<times> scanner" where
  "stateDot0 s c =
     (if isDigit c then (scanContinue, s)
      else if c = CHR ''e'' \<or> c = CHR ''E'' then continue_in StateE s
      else stateEndValue s c)"

definition stateESign :: "scanner \<Rightarrow> char \<Rightarrow> opcode \<times> scanner" where
  "stateESign s c = (if isDigit c then continue_in StateE0 s else scan_error s)"

definition stateE :: "scanner \<Rightarrow> char \<Rightarrow> opcode \<times> scanner" where
  "stateE s c =
     (if c = CHR ''+'' \<or> c = CHR ''-'' then continue_in StateESign s else stateESign s c)"

definition stateE0 :: "scanner \<Rightarrow> char \<Rightarrow> opcode \<times> scanner" where
  "stateE0 s c = (if isDigit c then (scanContinue, s) else stateEndValue s c)"

definition stateLetter :: "char \<Rightarrow> scan_state \<Rightarrow> scanner \<Rightarrow> char \<Rightarrow> opcode \<times> scanner" where
  \<comment> \<open>the states inside \<open>true\<close>, \<open>false\<close> and \<open>null\<close>: the expected letter
      leads to the next state\<close>
  "stateLetter expected next s c = (if c = expected then continue_in next s else scan_error s)"

definition scan_step :: "scanner \<Rightarrow> char \<Rightarrow> opcode \<times> scanner" where
  \<comment> \<open>\<open>s.step(s, c)\<close>\<close>
  "scan_step s c =
     (case step s of
        StateBeginValueOrEmpty \<Rightarrow> stateBeginValueOrEmpty s c
      | StateBeginValue \<Rightarrow> stateBeginValue s c
      | StateBeginStringOrEmpty \<Rightarrow> stateBeginStringOrEmpty s c
      | StateBeginString \<Rightarrow> stateBeginString s c
      | StateEndValue \<Rightarrow> stateEndValue s c
      | StateEndTop \<Rightarrow> stateEndTop s c
      | StateInString \<Rightarrow> stateInString s c
      | StateInStringEsc \<Rightarrow> stateInStringEsc s c
      | StateInStringEscU \<Rightarrow> stateHex StateInStringEscU1 s c
      | StateInStringEscU1 \<Rightarrow> stateHex StateInStringEscU12 s c
      | StateInStringEscU12 \<Rightarrow> stateHex StateInStringEscU123 s c
      | StateInStringEscU123 \<Rightarrow> stateHex StateInString s c
      | StateNeg \<Rightarrow> stateNeg s c
      | State1 \<Rightarrow> state1 s c
      | State0 \<Rightarrow> state0 s c
      | StateDot \<Rightarrow> stateDot s c
      | StateDot0 \<Rightarrow> stateDot0 s c
      | StateE \<Rightarrow> stateE s c
      | StateESign \<Rightarrow> stateESign s c
      | StateE0 \<Rightarrow> stateE0 s c
      | StateT \<Rightarrow> stateLetter (CHR ''r'') StateTr s c
      | StateTr \<Rightarrow> stateLetter (CHR ''u'') StateTru s c
      | StateTru \<Rightarrow> stateLetter (CHR ''e'') StateEndValue s c
      | StateF \<Rightarrow> stateLetter (CHR ''a'') StateFa s c
      | StateFa \<Rightarrow> stateLetter (CHR ''l'') StateFal s c
      | StateFal \<Rightarrow> stateLetter (CHR ''s'') StateFals s c
      | StateFals \<Rightarrow> stateLetter (CHR ''e'') StateEndValue s c
      | StateN \<Rightarrow> stateLetter (CHR ''u'') StateNu s c
      | StateNu \<Rightarrow> stateLetter (CHR ''l'') StateNul s c
      | StateNul \<Rightarrow> stateLetter (CHR ''l'') StateEndValue s c
      | StateError \<Rightarrow> (scanError, s))"

subsection \<open>Reading one value from the stream\<close>

datatype decode_error =
    EOF | ErrUnexpectedEOF | SyntaxError | InvalidUnmarshalError
  | UnmarshalTypeError string | UnknownField string

fun readValue_from :: "scanner \<Rightarrow> string \<Rightarrow> bool \<Rightarrow> nat \<Rightarrow> decode_error + nat" where
  \<comment> \<open>the loop of \<open>Decoder.readValue\<close> over a reader that holds the whole input:
      the bytes still to scan, whether a byte that is not a space was seen, and the
      number of bytes scanned.  At the end of the input the scanner is offered a space.\<close>
  "readValue_from sc [] nonSpace n =
     (if fst (scan_step sc (CHR '' '')) = scanEnd then Inr n
      else if nonSpace then Inl ErrUnexpectedEOF else Inl EOF)"
| "readValue_from sc (c # cs) nonSpace n =
     (case scan_step sc c of
        (scanEnd, sc1) \<Rightarrow> Inr n
      | (scanError, sc1) \<Rightarrow> Inl SyntaxError
      | (scanEndObject, sc1) \<Rightarrow>
          (case stateEndValue sc1 (CHR '' '') of
             (scanEnd, sc2) \<Rightarrow> Inr (Suc n)
           | (op2, sc2) \<Rightarrow> readValue_from sc2 cs True (Suc n))
      | (scanEndArray, sc1) \<Rightarrow>
          (case stateEndValue sc1 (CHR '' '') of
             (scanEnd, sc2) \<Rightarrow> Inr (Suc n)
           | (op2, sc2) \<Rightarrow> readValue_from sc2 cs True (Suc n))
      | (op1, sc1) \<Rightarrow> readValue_from sc1 cs (nonSpace \<or> \<not> isSpace c) (Suc n))"

definition readValue :: "string \<Rightarrow> decode_error + nat" where
  \<comment> \<open>the length of the first JSON value of the input, leading spaces included, or
      the error of the read\<close>
  "readValue b = readValue_from scanner_reset b False 0"

subsection \<open>String literals\<close>

definition in_range :: "nat \<Rightarrow> nat \<Rightarrow> char \<Rightarrow> bool" where
  "in_range lo hi c = (lo \<le> byte c \<and> byte c \<le> hi)"

definition utf8_size :: "string \<Rightarrow> nat" where
  \<comment> \<open>the size \<open>utf8.DecodeRune\<close> returns for a sequence that starts with a byte of
      0x80 or more, when the sequence is well-formed; 0 when the result is
      \<open>(RuneError, 1)\<close>.  The ranges are those of the tables \<open>first\<close> and
      \<open>acceptRanges\<close>.\<close>
  "utf8_size p =
     (case p of
        [] \<Rightarrow> 0
      | p0 # p' \<Rightarrow>
          let b0 = byte p0;
              sz = (if 0xC2 \<le> b0 \<and> b0 \<le> 0xDF then 2
                    else if 0xE0 \<le> b0 \<and> b0 \<le> 0xEF then 3
                    else if 0xF0 \<le> b0 \<and> b0 \<le> 0xF4 then 4
                    else 0);
              lo = (if b0 = 0xE0 then 0xA0 else if b0 = 0xF0 then 0x90 else 0x80);
              hi = (if b0 = 0xED then 0x9F else if b0 = 0xF4 then 0x8F else 0xBF)
          in if sz = 0 \<or> length p < sz then 0
             else if \<not> in_range lo hi (p ! 1) then 0
             else if sz = 2 then 2
             else if \<not> in_range 0x80 0xBF (p ! 2) then 0
             else if sz = 3 then 3
             else if \<not> in_range 0x80 0xBF (p ! 3) then 0
             else 4)"

definition RuneError :: nat where
  "RuneError = 0xFFFD"

definition EncodeRune :: "nat \<Rightarrow> string" where
  \<comment> \<open>\<open>utf8.EncodeRune\<close>: a surrogate or a value above \<open>MaxRune\<close> is encoded as
      U+FFFD\<close>
  "EncodeRune r =
     (if r \<le> 0x7F then [char_of r]
      else if r \<le> 0x7FF then [char_of (0xC0 + r div 64), char_of (0x80 + r mod 64)]
      else
        let r1 = (if r > 0x10FFFF \<or> (0xD800 \<le> r \<and> r \<le> 0xDFFF) then RuneError else r)
        in if r1 \<le> 0xFFFF
           then [char_of (0xE0 + r1 div 4096), char_of (0x80 + (r1 div 64) mod 64),
                 char_of (0x80 + r1 mod 64)]
           else [char_of (0xF0 + r1 div 262144), char_of (0x80 + (r1 div 4096) mod 64),
                 char_of (0x80 + (r1 div 64) mod 64), char_of (0x80 + r1 mod 64)])"

definition hexValue :: "char \<Rightarrow> nat option" where
  "hexValue c =
     (if isDigit c then Some (byte c - byte (CHR ''0''))
      else if in_range (byte (CHR ''a'')) (byte (CHR ''f'')) c then Some (byte c - byte (CHR ''a'') + 10)
      else if in_range (byte (CHR ''A'')) (byte (CHR ''F'')) c then Some (byte c - byte (CHR ''A'') + 10)
      else None)"

definition getu4 :: "string \<Rightarrow> nat option" where
  \<comment> \<open>the value of \<open>\uXXXX\<close> at the start of \<open>s\<close>; \<open>None\<close> is \<open>-1\<close>\<close>
  "getu4 s =
     (case s of
        b # u # h1 # h2 # h3 # h4 # rest \<Rightarrow>
          if b \<noteq> CHR 0x5C \<or> u \<noteq> CHR ''u'' then None
          else (case (hexValue h1, hexValue h2, hexValue h3, hexValue h4) of
                  (Some a, Some b, Some c, Some d) \<Rightarrow> Some (((a * 16 + b) * 16 + c) * 16 + d)
                | _ \<Rightarrow> None)
      | _ \<Rightarrow> None)"

definition utf16_DecodeRune :: "nat \<Rightarrow> nat option \<Rightarrow> nat" where
  \<comment> \<open>\<open>utf16.DecodeRune(r1, r2)\<close>: the code point of a surrogate pair, U+FFFD when
      the two are not a high and a low surrogate\<close>
  "utf16_DecodeRune r1 r2 =
     (case r2 of
        None \<Rightarrow> RuneError
      | Some r2' \<Rightarrow>
          if 0xD800 \<le> r1 \<and> r1 < 0xDC00 \<and> 0xDC00 \<le> r2' \<and> r2' < 0xE000
          then (r1 - 0xD800) * 1024 + (r2' - 0xDC00) + 0x10000
          else RuneError)"

function unquoteBody :: "string \<Rightarrow> string option" where
  \<comment> \<open>the loop of \<open>unquoteBytes\<close> over the bytes between the quotes; \<open>None\<close> is
      \<open>ok = false\<close>\<close>
  "unquoteBody [] = Some []"
| "unquoteBody (c # cs) =
     (if c = CHR 0x5C then
        (case cs of
           [] \<Rightarrow> None
         | e # rest \<Rightarrow>
             if e = CHR 0x22 \<or> e = CHR 0x5C \<or> e = CHR ''/'' \<or> e = CHR 0x27
               then map_option ((#) e) (unquoteBody rest)
             else if e = CHR ''b'' then map_option ((#) (CHR 0x08)) (unquoteBody rest)
             else if e = CHR ''f'' then map_option ((#) (CHR 0x0C)) (unquoteBody rest)
             else if e = CHR ''n'' then map_option ((#) (CHR 0x0A)) (unquoteBody rest)
             else if e = CHR ''r'' then map_option ((#) (CHR 0x0D)) (unquoteBody rest)
             else if e = CHR ''t'' then map_option ((#) (CHR 0x09)) (unquoteBody rest)
             else if e = CHR ''u'' then
               (case getu4 (c # cs) of
                  None \<Rightarrow> None
                | Some rr \<Rightarrow>
                    if 0xD800 \<le> rr \<and> rr < 0xE000
                    then (let dec = utf16_DecodeRune rr (getu4 (drop 5 cs))
                          in if dec \<noteq> RuneError
                             then map_option ((@) (EncodeRune dec)) (unquoteBody (drop 11 cs))
                             else map_option ((@) (EncodeRune RuneError)) (unquoteBody (drop 5 cs)))
                    else map_option ((@) (EncodeRune rr)) (unquoteBody (drop 5 cs)))
             else None)
      else if c = CHR 0x22 \<or> byte c < 0x20 then None
      else if byte c < 0x80 then map_option ((#) c) (unquoteBody cs)
      else
        (let size = utf8_size (c # cs)
         in if size = 0 then map_option ((@) (EncodeRune RuneError)) (unquoteBody cs)
            else map_option ((@) (take size (c # cs))) (unquoteBody (drop (size - 1) cs))))"
  by pat_completeness auto
termination
  by (relation "measure length") auto

definition unquoteBytes :: "string \<Rightarrow> string option" where
  "unquoteBytes s =
     (if length s < 2 \<or> hd s \<noteq> CHR 0x22 \<or> last s \<noteq> CHR 0x22 then None
      else unquoteBody (butlast (tl s)))"

subsection \<open>The value that was read\<close>

text \<open>
  \<open>decodeState\<close> walks the bytes \<open>readValue\<close> accepted with the same scanner and
  stores as it goes.  Here the walk first collects the value: the scanner's opcodes
  drive a stack of the composite values that are open.  A literal is kept as its bytes
  until the opcode that ends it.
\<close>

datatype json =
    JNull | JBool bool | JNumber string | JString string
  | JArray "json list" | JObject "(string \<times> json) list"

datatype pending = NoValue | Literal string | Finished json

datatype frame = FArray "json list" | FObject "(string \<times> json) list" "string option"

record walk =
  scan :: scanner
  cur :: pending
  stack :: "frame list"
  failed :: bool

definition literalValue :: "string \<Rightarrow> json option" where
  \<comment> \<open>the value of a literal, by its first byte as in \<open>literalStore\<close>\<close>
  "literalValue item =
     (case item of
        [] \<Rightarrow> None
      | c # _ \<Rightarrow>
          if c = CHR ''n'' then Some JNull
          else if c = CHR ''t'' then Some (JBool True)
          else if c = CHR ''f'' then Some (JBool False)
          else if c = CHR 0x22 then map_option JString (unquoteBytes item)
          else Some (JNumber item))"

definition finish :: "pending \<Rightarrow> json option option" where
  \<comment> \<open>the value that has just ended, if there is one; \<open>None\<close> when its literal
      cannot be unquoted\<close>
  "finish p =
     (case p of
        NoValue \<Rightarrow> Some None
      | Literal item \<Rightarrow> map_option Some (literalValue item)
      | Finished v \<Rightarrow> Some (Some v))"

definition walk_fail :: "walk \<Rightarrow> walk" where
  \<comment> \<open>\<open>panic(phasePanicMsg)\<close>\<close>
  "walk_fail w = w\<lparr>failed := True\<rparr>"

definition walk_op :: "opcode \<Rightarrow> char \<Rightarrow> walk \<Rightarrow> walk" where
  "walk_op opc c w =
     (case opc of
        scanBeginLiteral \<Rightarrow> w\<lparr>cur := Literal [c]\<rparr>
      | scanContinue \<Rightarrow>
          (case cur w of Literal item \<Rightarrow> w\<lparr>cur := Literal (item @ [c])\<rparr> | _ \<Rightarrow> walk_fail w)
      | scanBeginObject \<Rightarrow> w\<lparr>cur := NoValue, stack := FObject [] None # stack w\<rparr>
      | scanBeginArray \<Rightarrow> w\<lparr>cur := NoValue, stack := FArray [] # stack w\<rparr>
      | scanObjectKey \<Rightarrow>
          (case (cur w, stack w) of
             (Literal item, FObject ms None # fs) \<Rightarrow>
               (case unquoteBytes item of
                  Some key \<Rightarrow> w\<lparr>cur := NoValue, stack := FObject ms (Some key) # fs\<rparr>
                | None \<Rightarrow> walk_fail w)
           | _ \<Rightarrow> walk_fail w)
      | scanObjectValue \<Rightarrow>
          (case (finish (cur w), stack w) of
             (Some (Some v), FObject ms (Some key) # fs) \<Rightarrow>
               w\<lparr>cur := NoValue, stack := FObject ((key, v) # ms) None # fs\<rparr>
           | _ \<Rightarrow> walk_fail w)
      | scanEndObject \<Rightarrow>
          (case (finish (cur w), stack w) of
             (Some (Some v), FObject ms (Some key) # fs) \<Rightarrow>
               w\<lparr>cur := Finished (JObject (rev ((key, v) # ms))), stack := fs\<rparr>
           | (Some None, FObject ms None # fs) \<Rightarrow>
               w\<lparr>cur := Finished (JObject (rev ms)), stack := fs\<rparr>
           | _ \<Rightarrow> walk_fail w)
      | scanArrayValue \<Rightarrow>
          (case (finish (cur w), stack w) of
             (Some (Some v), FArray vs # fs) \<Rightarrow> w\<lparr>cur := NoValue, stack := FArray (v # vs) # fs\<rparr>
           | _ \<Rightarrow> walk_fail w)
      | scanEndArray \<Rightarrow>
          (case (finish (cur w), stack w) of
             (Some (Some v), FArray vs # fs) \<Rightarrow>
               w\<lparr>cur := Finished (JArray (rev (v # vs))), stack := fs\<rparr>
           | (Some None, FArray vs # fs) \<Rightarrow> w\<lparr>cur := Finished (JArray (rev vs)), stack := fs\<rparr>
           | _ \<Rightarrow> walk_fail w)
      | scanSkipSpace \<Rightarrow> w
      | scanEnd \<Rightarrow> w
      | scanError \<Rightarrow> walk_fail w)"

definition walk_byte :: "walk \<Rightarrow> char \<Rightarrow> walk" where
  "walk_byte w c =
     (if failed w then w
      else let (opc, sc) = scan_step (scan w) c in walk_op opc c (w\<lparr>scan := sc\<rparr>))"

definition valueOf :: "string \<Rightarrow> json option" where
  \<comment> \<open>the value the bytes \<open>readValue\<close> accepted stand for\<close>
  "valueOf item =
     (let w = foldl walk_byte \<lparr>scan = scanner_reset, cur = NoValue, stack = [], failed = False\<rparr> item
      in if failed w \<or> stack w \<noteq> [] then None
         else (case finish (cur w) of Some (Some v) \<Rightarrow> Some v | _ \<Rightarrow> None))"

subsection \<open>Decoding into the struct\<close>

text \<open>
  An error is modelled by its kind; an \<open>UnmarshalTypeError\<close> keeps the JSON kind it
  names (its \<open>Value\<close>), an unknown-field error the key.
\<close>

record testJSON =
  Name :: string

definition foldCase :: "char \<Rightarrow> nat" where
  \<comment> \<open>\<open>b & caseMask\<close>: the byte without the bit 0x20\<close>
  "foldCase c = (if (byte c div 32) mod 2 = 1 then byte c - 32 else byte c)"

definition simpleLetterEqualFold :: "string \<Rightarrow> string \<Rightarrow> bool" where
  \<comment> \<open>the \<open>equalFold\<close> of a field whose name has letters only, none of them
      \<open>k\<close> or \<open>s\<close>\<close>
  "simpleLetterEqualFold s t = (length s = length t \<and> map foldCase s = map foldCase t)"

definition isNameField :: "string \<Rightarrow> bool" where
  \<comment> \<open>the field lookup of \<open>object\<close> for the one field, tagged \<open>json:"name"\<close>: an
      exact match, or else a match that ignores case\<close>
  "isNameField key = (key = ''name'' \<or> simpleLetterEqualFold ''name'' key)"

definition saveError :: "decode_error \<Rightarrow> decode_error option \<Rightarrow> decode_error option" where
  \<comment> \<open>\<open>d.saveError(err)\<close>: the first error is kept\<close>
  "saveError err saved = (case saved of None \<Rightarrow> Some err | Some e \<Rightarrow> Some e)"

definition storeName :: "json \<Rightarrow> decode_error option \<times> testJSON \<Rightarrow> decode_error option \<times> testJSON" where
  \<comment> \<open>\<open>d.value(subv)\<close> for the string field: a string is stored, \<open>null\<close> is
      ignored, any other value is a type error that is saved while decoding goes on\<close>
  "storeName v st =
     (case v of
        JString s \<Rightarrow> (fst st, (snd st)\<lparr>Name := s\<rparr>)
      | JNull \<Rightarrow> st
      | JBool b \<Rightarrow> (saveError (UnmarshalTypeError ''bool'') (fst st), snd st)
      | JNumber n \<Rightarrow> (saveError (UnmarshalTypeError ''number'') (fst st), snd st)
      | JArray vs \<Rightarrow> (saveError (UnmarshalTypeError ''array'') (fst st), snd st)
      | JObject ms \<Rightarrow> (saveError (UnmarshalTypeError ''object'') (fst st), snd st))"

definition member :: "bool \<Rightarrow> decode_error option \<times> testJSON \<Rightarrow> string \<times> json \<Rightarrow>
    decode_error option \<times> testJSON" where
  \<comment> \<open>one round of the loop of \<open>object\<close>: the value of a known key is stored; an
      unknown key is an error when unknown fields are disallowed, and its value is
      skipped\<close>
  "member disallowUnknownFields st kv =
     (if isNameField (fst kv) then storeName (snd kv) st
      else if disallowUnknownFields then (saveError (UnknownField (fst kv)) (fst st), snd st)
      else st)"

definition unmarshal :: "bool \<Rightarrow> json \<Rightarrow> testJSON \<Rightarrow> decode_error option \<times> testJSON" where
  \<comment> \<open>\<open>d.unmarshal(v)\<close> for a pointer to a \<open>testJSON\<close>: the saved error and the
      struct as decoding leaves it\<close>
  "unmarshal disallowUnknownFields v tj =
     (case v of
        JObject ms \<Rightarrow> foldl (member disallowUnknownFields) (None, tj) ms
      | JNull \<Rightarrow> (None, tj)
      | JBool b \<Rightarrow> (Some (UnmarshalTypeError ''bool''), tj)
      | JNumber n \<Rightarrow> (Some (UnmarshalTypeError ''number''), tj)
      | JString s \<Rightarrow> (Some (UnmarshalTypeError ''string''), tj)
      | JArray vs \<Rightarrow> (Some (UnmarshalTypeError ''array''), tj))"

datatype decode_result =
    Decoded "decode_error option" "testJSON option"
  | DecodePanic

definition Decode :: "bool \<Rightarrow> string \<Rightarrow> testJSON option \<Rightarrow> decode_result" where
  \<comment> \<open>\<open>d.Decode(tj)\<close> on a fresh decoder over the bytes \<open>b\<close>: the error it returns
      and what \<open>tj\<close> points to afterwards (\<open>None\<close> is a nil pointer)\<close>
  "Decode disallowUnknownFields b tj =
     (case readValue b of
        Inl err \<Rightarrow> Decoded (Some err) tj
      | Inr n \<Rightarrow>
          (case tj of
             None \<Rightarrow> Decoded (Some InvalidUnmarshalError) None
           | Some t \<Rightarrow>
               (case valueOf (take n b) of
                  None \<Rightarrow> DecodePanic
                | Some v \<Rightarrow>
                    (let (err, t') = unmarshal disallowUnknownFields v t
                     in Decoded err (Some t')))))"

section \<open>concepts/json/json.go\<close>

definition marshal :: "string \<Rightarrow> testJSON option \<Rightarrow> decode_result \<times> string list" where
  \<comment> \<open>the result of \<open>marshal(b, tj)\<close> (the error returned and the struct behind
      \<open>tj\<close>), and the text of the line it logs (without the error it prints)\<close>
  "marshal b tj =
     (case Decode True b tj of
        Decoded (Some err) tj' \<Rightarrow> (Decoded (Some err) tj', [''got an err ''])
      | Decoded None tj' \<Rightarrow> (Decoded None tj', [''no error''])
      | DecodePanic \<Rightarrow> (DecodePanic, []))"

section \<open>concepts/json/json_test.go\<close>


definition badJSONString :: string where
  \<open>badJSONString = ''{"name":"michael","address": "1234 Shady Lane Boston, MA"}''\<close>

section \<open>What marshal accepts\<close>







section \<open>The invariant of the walk\<close>

text \<open>
  The scanner's string states on their own, as an automaton over the bytes after the
  opening quote.
\<close>


fun str_step :: "scan_state \<Rightarrow> char \<Rightarrow> scan_state" where
  "str_step StateInString c =
     (if c = CHR 0x22 then StateEndValue
      else if c = CHR 0x5C then StateInStringEsc
      else if byte c < 0x20 then StateError
      else StateInString)"
| "str_step StateInStringEsc c =
     (if c \<in> set ''bfnrt/'' \<or> c = CHR 0x5C \<or> c = CHR 0x22 then StateInString
      else if c = CHR ''u'' then StateInStringEscU
      else StateError)"
| "str_step StateInStringEscU c = (if isHex c then StateInStringEscU1 else StateError)"
| "str_step StateInStringEscU1 c = (if isHex c then StateInStringEscU12 else StateError)"
| "str_step StateInStringEscU12 c = (if isHex c then StateInStringEscU123 else StateError)"
| "str_step StateInStringEscU123 c = (if isHex c then StateInString else StateError)"
| "str_step st c = StateError"

definition str_run :: "scan_state \<Rightarrow> string \<Rightarrow> scan_state" where
  "str_run st bs = foldl str_step st bs"

definition plain :: "char \<Rightarrow> bool" where
  \<comment> \<open>a byte of a multi-byte UTF-8 sequence\<close>
  "plain c = (byte c \<ge> 0x80)"

text \<open>
  The walk and the scanner agree: each open composite value has its frame, only the
  innermost can be waiting for a key, and what the walk holds as the current value fits
  the state of the scanner.
\<close>

definition at_key :: "parse_state list \<Rightarrow> bool" where
  "at_key ps = (case ps of parseObjectKey # rest \<Rightarrow> True | _ \<Rightarrow> False)"

fun frame_matches :: "frame \<Rightarrow> parse_state \<Rightarrow> bool" where
  "frame_matches (FArray vs) parseArrayValue = True"
| "frame_matches (FObject ms None) parseObjectKey = True"
| "frame_matches (FObject ms (Some k)) parseObjectValue = True"
| "frame_matches f p = False"

definition has_value :: "pending \<Rightarrow> bool" where
  "has_value p = (\<exists>v. finish p = Some (Some v))"

definition numeric :: "string \<Rightarrow> bool" where
  "numeric item = (\<exists>c cs. item = c # cs \<and> (c = CHR ''-'' \<or> isDigit c))"

definition lettered :: "string \<Rightarrow> bool" where
  "lettered item = (\<exists>c cs. item = c # cs \<and> (c = CHR ''t'' \<or> c = CHR ''f'' \<or> c = CHR ''n''))"

definition string_in :: "scan_state \<Rightarrow> pending \<Rightarrow> bool" where
  "string_in st p = (\<exists>bdy. p = Literal (CHR 0x22 # bdy) \<and> str_run StateInString bdy = st)"

definition key_literal :: "pending \<Rightarrow> bool" where
  "key_literal p = (\<exists>item key. p = Literal item \<and> unquoteBytes item = Some key)"

definition in_number :: "parse_state list \<Rightarrow> pending \<Rightarrow> bool" where
  "in_number ps p = ((\<exists>item. p = Literal item \<and> numeric item) \<and> \<not> at_key ps)"

definition in_letters :: "parse_state list \<Rightarrow> pending \<Rightarrow> bool" where
  "in_letters ps p = ((\<exists>item. p = Literal item \<and> lettered item) \<and> \<not> at_key ps)"

fun cur_ok :: "scan_state \<Rightarrow> parse_state list \<Rightarrow> pending \<Rightarrow> bool" where
  "cur_ok StateBeginValue ps p = (p = NoValue \<and> \<not> at_key ps)"
| "cur_ok StateBeginValueOrEmpty ps p = (p = NoValue \<and> (\<exists>rest. ps = parseArrayValue # rest))"
| "cur_ok StateBeginString ps p = (p = NoValue \<and> at_key ps)"
| "cur_ok StateBeginStringOrEmpty ps p = (p = NoValue \<and> at_key ps)"
| "cur_ok StateInString ps p = string_in StateInString p"
| "cur_ok StateInStringEsc ps p = string_in StateInStringEsc p"
| "cur_ok StateInStringEscU ps p = string_in StateInStringEscU p"
| "cur_ok StateInStringEscU1 ps p = string_in StateInStringEscU1 p"
| "cur_ok StateInStringEscU12 ps p = string_in StateInStringEscU12 p"
| "cur_ok StateInStringEscU123 ps p = string_in StateInStringEscU123 p"
| "cur_ok StateNeg ps p = in_number ps p"
| "cur_ok State1 ps p = in_number ps p"
| "cur_ok State0 ps p = in_number ps p"
| "cur_ok StateDot ps p = in_number ps p"
| "cur_ok StateDot0 ps p = in_number ps p"
| "cur_ok StateE ps p = in_number ps p"
| "cur_ok StateESign ps p = in_number ps p"
| "cur_ok StateE0 ps p = in_number ps p"
| "cur_ok StateT ps p = in_letters ps p"
| "cur_ok StateTr ps p = in_letters ps p"
| "cur_ok StateTru ps p = in_letters ps p"
| "cur_ok StateF ps p = in_letters ps p"
| "cur_ok StateFa ps p = in_letters ps p"
| "cur_ok StateFal ps p = in_letters ps p"
| "cur_ok StateFals ps p = in_letters ps p"
| "cur_ok StateN ps p = in_letters ps p"
| "cur_ok StateNu ps p = in_letters ps p"
| "cur_ok StateNul ps p = in_letters ps p"
| "cur_ok StateEndValue ps p = (if at_key ps then key_literal p else has_value p)"
| "cur_ok StateEndTop ps p = (has_value p \<and> ps = [])"
| "cur_ok StateError ps p = False"

definition walk_inv :: "walk \<Rightarrow> bool" where
  "walk_inv w =
     (\<not> failed w
      \<and> list_all2 frame_matches (stack w) (parseState (scan w))
      \<and> list_all (\<lambda>p. p \<noteq> parseObjectKey) (tl (parseState (scan w)))
      \<and> cur_ok (step (scan w)) (parseState (scan w)) (cur w))"
section \<open>The response writer\<close>

lemma informational_iff [simp]:
  "informational code \<longleftrightarrow> 100 \<le> code \<and> code \<le> 199 \<and> code \<noteq> 101"
  by (simp add: informational_def StatusSwitchingProtocols_def)


section \<open>The authorization middleware\<close>

lemma canonical_secret_key:
  "CanonicalMIMEHeaderKey ''X-Secret-Password'' = ''X-Secret-Password''"
  by (simp add: CanonicalMIMEHeaderKey_def validHeaderFieldByte_def canonicalByte_def
      isLower_def isUpper_def isDigit_def byte_def)

lemma WriteHeader_fresh:
  "\<not> wroteHeader (resp s) \<Longrightarrow> code = 101 \<or> 200 \<le> code \<Longrightarrow> code \<le> 999 \<Longrightarrow>
   WriteHeader code s =
     (Returned, s\<lparr>resp := (resp s)\<lparr>wroteHeader := True, status := code,
                                     cw_header := handlerHeader (resp s)\<rparr>\<rparr>)"
  by (auto simp: WriteHeader_def)

lemma unauthorized_fresh:
  "\<not> wroteHeader (resp s) \<Longrightarrow>
   andThen (WriteHeader StatusUnauthorized s) (\<lambda>s1. (Returned, snd (Write securityMsg s1))) =
     (Returned, s\<lparr>resp := (resp s)\<lparr>wroteHeader := True, status := 401,
        cw_header := handlerHeader (resp s), body := body (resp s) @ securityMsg\<rparr>\<rparr>)"
  by (simp add: andThen_def WriteHeader_def Write_def StatusUnauthorized_def
      bodyAllowedForStatus_def securityMsg_def Let_def)

text \<open>
  C2.  For the handler \<open>TerribleSecurityProvider password h\<close> and every request: when
  the value of the \<open>X-Secret-Password\<close> header differs from the password, the result is
  \<open>WriteHeader(StatusUnauthorized)\<close> followed by \<open>Write(securityMsg)\<close> on the
  response writer; it is the same whatever the inner handler is, so the inner handler is
  not run; on a writer with no status yet the response is 401 with the fixed message.
  When the header value equals the password the result is that of the inner handler on
  the same request and state.
\<close>

theorem TerribleSecurityProvider_gate:
  "(Header_Get (Header r) ''X-Secret-Password'' \<noteq> password \<longrightarrow>
      TerribleSecurityProvider password h r s =
        andThen (WriteHeader StatusUnauthorized s) (\<lambda>s1. (Returned, snd (Write securityMsg s1)))
      \<and> (\<forall>h'. TerribleSecurityProvider password h' r s = TerribleSecurityProvider password h r s)
      \<and> (\<not> wroteHeader (resp s) \<longrightarrow>
           TerribleSecurityProvider password h r s =
             (Returned, s\<lparr>resp := (resp s)\<lparr>wroteHeader := True, status := 401,
                cw_header := handlerHeader (resp s), body := body (resp s) @ securityMsg\<rparr>\<rparr>)))
   \<and> (Header_Get (Header r) ''X-Secret-Password'' = password \<longrightarrow>
        TerribleSecurityProvider password h r s = h r s)"
  by (simp add: TerribleSecurityProvider_def unauthorized_fresh)

theorem TerribleSecurityProvider_gate_witness:
  "TerribleSecurityProvider ''PASSWORD'' panicking (exampleRequest ''GET'' ''/hello'' Map.empty) initState =
     (Returned, initState\<lparr>resp := newResponse\<lparr>wroteHeader := True, status := 401, body := securityMsg\<rparr>\<rparr>)
   \<and> TerribleSecurityProvider ''PASSWORD'' panicking
        (exampleRequest ''GET'' ''/hello'' [''X-Secret-Password'' \<mapsto> [''PASSWORD'']]) initState =
     (Panicked ''boom'', initState)"
proof -
  let ?r1 = "exampleRequest ''GET'' ''/hello'' Map.empty"
  let ?r2 = "exampleRequest ''GET'' ''/hello'' [''X-Secret-Password'' \<mapsto> [''PASSWORD'']]"
  have a: "Header_Get (Header ?r1) ''X-Secret-Password'' \<noteq> ''PASSWORD''"
    by (simp add: Header_Get_def canonical_secret_key exampleRequest_def)
  have b: "\<not> wroteHeader (resp initState)"
    by (simp add: initState_def newResponse_def)
  have c: "Header_Get (Header ?r2) ''X-Secret-Password'' = ''PASSWORD''"
    by (simp add: Header_Get_def canonical_secret_key exampleRequest_def)
  have "TerribleSecurityProvider ''PASSWORD'' panicking ?r1 initState =
          (Returned, initState\<lparr>resp := (resp initState)\<lparr>wroteHeader := True, status := 401,
             cw_header := handlerHeader (resp initState),
             body := body (resp initState) @ securityMsg\<rparr>\<rparr>)"
    using TerribleSecurityProvider_gate [of ?r1 "''PASSWORD''" panicking initState] a b by blast
  moreover have "TerribleSecurityProvider ''PASSWORD'' panicking ?r2 initState = panicking ?r2 initState"
    using TerribleSecurityProvider_gate [of ?r2 "''PASSWORD''" panicking initState] c by blast
  ultimately show ?thesis
    by (simp add: initState_def newResponse_def panicking_def)
qed



section \<open>The timing middleware and a missing header\<close>


lemma unauthorized_Returned:
  "fst (andThen (WriteHeader StatusUnauthorized s) (\<lambda>s1. (Returned, snd (Write securityMsg s1)))) = Returned"
  by (simp add: andThen_def WriteHeader_def StatusUnauthorized_def)

text \<open>
  C10.  A request without an \<open>X-Secret-Password\<close> header reads as the empty
  string: the handler made by \<open>TerribleSecurityProvider password\<close> delegates such a
  request to every inner handler exactly when the password is the empty string, and for a
  non-empty password it treats the request as it treats any request \<open>r'\<close> that
  carries a wrong password.
\<close>

theorem missing_password_header:
  "Header r ''X-Secret-Password'' = None \<longrightarrow>
     Header_Get (Header r) ''X-Secret-Password'' = []
     \<and> ((\<forall>h s. TerribleSecurityProvider password h r s = h r s) \<longleftrightarrow> password = [])
     \<and> (password \<noteq> [] \<and> Header_Get (Header r') ''X-Secret-Password'' \<noteq> password \<longrightarrow>
          TerribleSecurityProvider password h r s = TerribleSecurityProvider password h r' s)"
proof (intro impI conjI)
  assume none: "Header r ''X-Secret-Password'' = None"
  show get: "Header_Get (Header r) ''X-Secret-Password'' = []"
    using none by (simp add: Header_Get_def canonical_secret_key)
  show "(\<forall>h s. TerribleSecurityProvider password h r s = h r s) \<longleftrightarrow> password = []"
  proof
    assume all: "\<forall>h s. TerribleSecurityProvider password h r s = h r s"
    show "password = []"
    proof (rule ccontr)
      assume "password \<noteq> []"
      then have "fst (TerribleSecurityProvider password panicking r initState) = Returned"
        using get by (simp add: TerribleSecurityProvider_def unauthorized_Returned)
      moreover have "fst (panicking r initState) = Panicked ''boom''"
        by (simp add: panicking_def)
      ultimately show False using all by simp
    qed
  next
    assume "password = []"
    then show "\<forall>h s. TerribleSecurityProvider password h r s = h r s"
      using get by (simp add: TerribleSecurityProvider_def)
  qed
  show "TerribleSecurityProvider password h r s = TerribleSecurityProvider password h r' s"
    if "password \<noteq> [] \<and> Header_Get (Header r') ''X-Secret-Password'' \<noteq> password"
    using that get by (auto simp add: TerribleSecurityProvider_def)
qed

theorem missing_password_header_witness:
  "TerribleSecurityProvider ''PASSWORD'' panicking (exampleRequest ''GET'' ''/hello'' Map.empty) initState =
     TerribleSecurityProvider ''PASSWORD'' panicking
       (exampleRequest ''GET'' ''/hello'' [''X-Secret-Password'' \<mapsto> [''wrong'']]) initState
   \<and> TerribleSecurityProvider [] panicking (exampleRequest ''GET'' ''/hello'' Map.empty) initState =
       (Panicked ''boom'', initState)"
proof -
  let ?r = "exampleRequest ''GET'' ''/hello'' Map.empty"
  let ?r' = "exampleRequest ''GET'' ''/hello'' [''X-Secret-Password'' \<mapsto> [''wrong'']]"
  have none: "Header ?r ''X-Secret-Password'' = None"
    by (simp add: exampleRequest_def)
  have wrong: "''PASSWORD'' \<noteq> [] \<and> Header_Get (Header ?r') ''X-Secret-Password'' \<noteq> ''PASSWORD''"
    by (simp add: Header_Get_def canonical_secret_key exampleRequest_def)
  have "TerribleSecurityProvider ''PASSWORD'' panicking ?r initState =
          TerribleSecurityProvider ''PASSWORD'' panicking ?r' initState"
    using missing_password_header [of ?r "''PASSWORD''" ?r' panicking initState] none wrong by blast
  moreover have "\<forall>h s. TerribleSecurityProvider [] h ?r s = h ?r s"
    using missing_password_header [of ?r "[]" ?r' panicking initState] none by blast
  ultimately show ?thesis
    by (simp add: panicking_def)
qed

text \<open>
  C3, as stated, fails when the inner handler fails: with an inner handler that panics,
  \<open>RequestTimer\<close> has read the start time, the panic propagates, and the log holds
  no record.
\<close>

theorem RequestTimer_counterexample:
  "RequestTimer panicking (exampleRequest ''GET'' ''/hello'' Map.empty) initState =
     (Panicked ''boom'', initState\<lparr>ticks := 1\<rparr>)
   \<and> logs (snd (RequestTimer panicking (exampleRequest ''GET'' ''/hello'' Map.empty) initState)) = []"
  by (simp add: RequestTimer_def Now_def andThen_def panicking_def initState_def)

text \<open>
  C3, amended.  \<open>RequestTimer h\<close> reads the start time before it calls the inner
  handler (the inner handler runs in the state after the reading).  When the inner handler
  returns, the end time is read after it and exactly one record, with the path and
  \<open>end.Sub(start)\<close>, is appended to what the inner handler left in the log.  When
  the inner handler panics, the result is that of the inner handler: the panic
  propagates and the timer emits nothing.
\<close>

theorem RequestTimer_record:
  "(fst (h r (s\<lparr>ticks := Suc (ticks s)\<rparr>)) = Returned \<longrightarrow>
      (let s2 = snd (h r (s\<lparr>ticks := Suc (ticks s)\<rparr>)) in
       RequestTimer h r s =
         (Returned,
          s2\<lparr>ticks := Suc (ticks s2),
             logs := logs s2 @
               [(''request time for %ss: %v'',
                 [ArgString (Path (URL r)),
                  ArgDuration (Time_Sub (clock s2 (ticks s2)) (clock s (ticks s)))])]\<rparr>)))
   \<and> (fst (h r (s\<lparr>ticks := Suc (ticks s)\<rparr>)) \<noteq> Returned \<longrightarrow>
        RequestTimer h r s = h r (s\<lparr>ticks := Suc (ticks s)\<rparr>))"
  by (cases "h r (s\<lparr>ticks := Suc (ticks s)\<rparr>)"; cases "fst (h r (s\<lparr>ticks := Suc (ticks s)\<rparr>))")
     (simp_all add: RequestTimer_def Now_def andThen_def Printf_def Let_def)

theorem RequestTimer_record_witness:
  "RequestTimer hello (exampleRequest ''GET'' ''/hello'' Map.empty) initState =
     (Returned,
      initState\<lparr>resp := newResponse\<lparr>wroteHeader := True, status := 200,
                                      body := ''Hello, world!\<newline>''\<rparr>,
                 ticks := 2,
                 logs := [(''request time for %ss: %v'', [ArgString ''/hello'', ArgDuration 1000])]\<rparr>)"
proof -
  let ?r = "exampleRequest ''GET'' ''/hello'' Map.empty"
  let ?s1 = "initState\<lparr>ticks := Suc (ticks initState)\<rparr>"
  have h: "hello ?r ?s1 =
      (Returned, initState\<lparr>resp := newResponse\<lparr>wroteHeader := True, status := 200,
                                      body := ''Hello, world!\<newline>''\<rparr>, ticks := 1\<rparr>)"
    by (simp add: hello_def Write_def WriteHeader_def StatusOK_def bodyAllowedForStatus_def
        initState_def newResponse_def)
  then have "fst (hello ?r ?s1) = Returned" by simp
  with RequestTimer_record [of hello ?r initState]
  have "(let s2 = snd (hello ?r ?s1) in
       RequestTimer hello ?r initState =
         (Returned,
          s2\<lparr>ticks := Suc (ticks s2),
             logs := logs s2 @
               [(''request time for %ss: %v'',
                 [ArgString (Path (URL ?r)),
                  ArgDuration (Time_Sub (clock s2 (ticks s2)) (clock initState (ticks initState)))])]\<rparr>))"
    by blast
  then show ?thesis
    unfolding h
    by (simp add: initState_def exampleRequest_def Time_Sub_def maxDuration_def minDuration_def)
qed


section \<open>The status of a response\<close>


lemma do_call_wrote:
  "wroteHeader (resp s) \<Longrightarrow>
   wroteHeader (resp (snd (do_call c s))) \<and> status (resp (snd (do_call c s))) = status (resp s)"
  by (cases c) (simp_all add: WriteHeader_def Write_def SetHeader_def Printf_def Let_def)

lemma do_calls_wrote:
  "wroteHeader (resp s) \<Longrightarrow>
   wroteHeader (resp (snd (do_calls cs s))) \<and> status (resp (snd (do_calls cs s))) = status (resp s)"
proof (induction cs arbitrary: s)
  case Nil
  then show ?case by simp
next
  case (Cons c cs)
  obtain out s1 where c: "do_call c s = (out, s1)" by (cases "do_call c s")
  have w1: "wroteHeader (resp s1) \<and> status (resp s1) = status (resp s)"
    using do_call_wrote [OF Cons.prems, of c] c by simp
  show ?case
  proof (cases out)
    case Returned
    then show ?thesis using c w1 Cons.IH [of s1] by (simp add: andThen_def)
  next
    case (Panicked msg)
    then show ?thesis using c w1 by (simp add: andThen_def)
  qed
qed

lemma do_calls_after_Returned:
  "h = (Returned, s1) \<Longrightarrow> wroteHeader (resp s1) \<Longrightarrow>
   status (resp (snd (andThen h (do_calls cs)))) = status (resp s1)"
  using do_calls_wrote [of s1 cs] by (simp add: andThen_def)

lemma alive_fresh:
  "alive r (s\<lparr>resp := newResponse\<rparr>) =
     (Returned, s\<lparr>resp := newResponse\<lparr>wroteHeader := True, status := 200, body := ''ok!\<newline>''\<rparr>\<rparr>)"
  by (simp add: alive_def Write_def WriteHeader_def StatusOK_def bodyAllowedForStatus_def
      newResponse_def)

lemma NewHandler_fresh:
  "NewHandler_ServeHTTP r (s\<lparr>resp := newResponse\<rparr>) =
     (Returned, s\<lparr>resp := newResponse\<lparr>wroteHeader := True, status := 202,
                                      body := ''Hello, world!\<newline>''\<rparr>\<rparr>)"
  by (simp add: NewHandler_ServeHTTP_def andThen_def Write_def WriteHeader_def StatusAccepted_def
      bodyAllowedForStatus_def newResponse_def)

text \<open>
  C8, as stated, fails for the informational codes: \<open>WriteHeader(103)\<close> on a fresh
  writer is sent as an interim response and does not fix the status, so the
  \<open>WriteHeader(200)\<close> that follows sets it; the status of the response is 200, not
  the code written first.
\<close>

theorem status_informational_counterexample:
  "do_calls [CallWriteHeader 103, CallWriteHeader 200, CallWrite ''x''] initState =
     (Returned, initState\<lparr>resp := newResponse\<lparr>wroteHeader := True, status := 200, body := ''x'',
                                                interim := [(103, Map.empty)]\<rparr>\<rparr>)
   \<and> status (resp (snd (do_calls [CallWriteHeader 103, CallWriteHeader 200, CallWrite ''x'']
                          initState))) \<noteq> 103"
  by (simp add: andThen_def WriteHeader_def Write_def StatusOK_def bodyAllowedForStatus_def
      excludedHeadersNoBody_def initState_def newResponse_def)

text \<open>
  C8, amended.  A \<open>Write\<close> on a response writer whose status has not been written
  sets the status to 200.  A \<open>WriteHeader(code)\<close> with a code that is not
  informational (101, or 200 to 999) on such a writer sets the status, and once the
  status is written no sequence of calls on the writer changes it.  A
  \<open>WriteHeader(code)\<close> with an informational code (100 to 199 other than 101) adds
  an interim response and leaves the status unwritten.  The handler of \<open>/alive\<close>,
  which writes without setting a status, leaves the status 200, and \<open>NewHandler\<close>,
  which sets 202 and then writes, leaves 202, whatever calls follow on the writer.
\<close>

theorem status_default_and_final:
  "(\<not> wroteHeader (resp s) \<longrightarrow>
      wroteHeader (resp (snd (Write bs s))) \<and> status (resp (snd (Write bs s))) = 200)
   \<and> (\<not> wroteHeader (resp s) \<and> (code = 101 \<or> 200 \<le> code) \<and> code \<le> 999 \<longrightarrow>
      status (resp (snd (do_calls (CallWriteHeader code # cs) s))) = code)
   \<and> (wroteHeader (resp s) \<longrightarrow>
      wroteHeader (resp (snd (do_calls cs s))) \<and>
      status (resp (snd (do_calls cs s))) = status (resp s))
   \<and> (\<not> wroteHeader (resp s) \<and> 100 \<le> code \<and> code \<le> 199 \<and> code \<noteq> 101 \<longrightarrow>
      WriteHeader code s =
        (Returned, s\<lparr>resp := (resp s)\<lparr>interim := interim (resp s) @
                        [(code, (handlerHeader (resp s))(''Content-Length'' := None,
                                                        ''Transfer-Encoding'' := None))]\<rparr>\<rparr>))
   \<and> status (resp (snd (andThen (alive r (s\<lparr>resp := newResponse\<rparr>)) (do_calls cs)))) = 200
   \<and> status (resp (snd (andThen (NewHandler_ServeHTTP r (s\<lparr>resp := newResponse\<rparr>))
                           (do_calls cs)))) = 202"
proof (intro conjI impI)
  assume "\<not> wroteHeader (resp s)"
  then show "wroteHeader (resp (snd (Write bs s)))" "status (resp (snd (Write bs s))) = 200"
    by (simp_all add: Write_def WriteHeader_def StatusOK_def Let_def)
next
  assume a: "\<not> wroteHeader (resp s) \<and> (code = 101 \<or> 200 \<le> code) \<and> code \<le> 999"
  let ?s1 = "s\<lparr>resp := (resp s)\<lparr>wroteHeader := True, status := code,
                                   cw_header := handlerHeader (resp s)\<rparr>\<rparr>"
  have "WriteHeader code s = (Returned, ?s1)"
    using a by (intro WriteHeader_fresh) simp_all
  then have "do_calls (CallWriteHeader code # cs) s = do_calls cs ?s1"
    by (simp add: andThen_def)
  then show "status (resp (snd (do_calls (CallWriteHeader code # cs) s))) = code"
    using do_calls_wrote [of ?s1 cs] by simp
next
  assume "wroteHeader (resp s)"
  then show "wroteHeader (resp (snd (do_calls cs s)))"
    "status (resp (snd (do_calls cs s))) = status (resp s)"
    using do_calls_wrote [of s cs] by simp_all
next
  assume "\<not> wroteHeader (resp s) \<and> 100 \<le> code \<and> code \<le> 199 \<and> code \<noteq> 101"
  then show "WriteHeader code s =
        (Returned, s\<lparr>resp := (resp s)\<lparr>interim := interim (resp s) @
                        [(code, (handlerHeader (resp s))(''Content-Length'' := None,
                                                        ''Transfer-Encoding'' := None))]\<rparr>\<rparr>)"
    by (simp add: WriteHeader_def excludedHeadersNoBody_def)
next
  show "status (resp (snd (andThen (alive r (s\<lparr>resp := newResponse\<rparr>)) (do_calls cs)))) = 200"
    by (subst do_calls_after_Returned [OF alive_fresh]) simp_all
next
  show "status (resp (snd (andThen (NewHandler_ServeHTTP r (s\<lparr>resp := newResponse\<rparr>))
                           (do_calls cs)))) = 202"
    by (subst do_calls_after_Returned [OF NewHandler_fresh]) simp_all
qed

theorem status_default_and_final_witness:
  "status (resp (snd (Write ''ok!\<newline>'' initState))) = 200
   \<and> status (resp (snd (do_calls [CallWriteHeader 202, CallWriteHeader 404, CallWrite ''x'']
                          initState))) = 202
   \<and> status (resp (snd (do_calls [CallWriteHeader 404, CallSetHeader ''a'' ''b'', CallWrite ''x'']
                          (snd (Write ''ok!\<newline>'' initState))))) = 200
   \<and> WriteHeader 103 initState =
       (Returned, initState\<lparr>resp := newResponse\<lparr>interim := [(103, Map.empty)]\<rparr>\<rparr>)"
proof -
  have a: "\<not> wroteHeader (resp initState)" by (simp add: initState_def newResponse_def)
  from status_default_and_final [where s = initState and bs = "''ok!\<newline>''"] a
  have b: "wroteHeader (resp (snd (Write ''ok!\<newline>'' initState)))"
    and c: "status (resp (snd (Write ''ok!\<newline>'' initState))) = 200"
    by blast+
  from status_default_and_final [where s = "snd (Write ''ok!\<newline>'' initState)"
      and cs = "[CallWriteHeader 404, CallSetHeader ''a'' ''b'', CallWrite ''x'']"] b
  have d: "status (resp (snd (do_calls [CallWriteHeader 404, CallSetHeader ''a'' ''b'', CallWrite ''x'']
                          (snd (Write ''ok!\<newline>'' initState))))) =
        status (resp (snd (Write ''ok!\<newline>'' initState)))"
    by blast
  have "\<not> wroteHeader (resp initState) \<and> ((202::int) = 101 \<or> (200::int) \<le> 202) \<and> (202::int) \<le> 999"
    using a by simp
  with status_default_and_final [where s = initState and code = 202
      and cs = "[CallWriteHeader 404, CallWrite ''x'']"]
  have e: "status (resp (snd (do_calls [CallWriteHeader 202, CallWriteHeader 404, CallWrite ''x'']
                          initState))) = 202"
    by blast
  have "\<not> wroteHeader (resp initState) \<and> (100::int) \<le> 103 \<and> (103::int) \<le> 199 \<and> (103::int) \<noteq> 101"
    using a by simp
  with status_default_and_final [where s = initState and code = 103]
  have "WriteHeader 103 initState =
        (Returned, initState\<lparr>resp := (resp initState)\<lparr>interim := interim (resp initState) @
                        [(103, (handlerHeader (resp initState))(''Content-Length'' := None,
                                                        ''Transfer-Encoding'' := None))]\<rparr>\<rparr>)"
    by blast
  then have f: "WriteHeader 103 initState =
       (Returned, initState\<lparr>resp := newResponse\<lparr>interim := [(103, Map.empty)]\<rparr>\<rparr>)"
    by (simp add: initState_def newResponse_def)
  from c d e f show ?thesis by simp
qed




section \<open>The server of newServeMux\<close>


lemma newServeMux_eq: "newServeMux = Inr newServeMux_value"
  by (simp add: newServeMux_def newServeMux_value_def thenRegister_def HandleFunc_def
      Handle_def NewServeMux_def)

lemma neq_by_last: "last a \<noteq> last b \<Longrightarrow> a \<noteq> b"
  by auto

lemma neq_by_length: "length a \<noteq> length b \<Longrightarrow> a \<noteq> b"
  by auto


lemma newServeMux_m_other:
  assumes "last p \<noteq> CHR ''e''" "last p \<noteq> CHR ''y''" "p \<noteq> []"
  shows "mux_m newServeMux_value (host @ p) = None"
proof -
  have "host @ p \<noteq> ''ready''" using assms by (intro neq_by_last) simp
  moreover have "host @ p \<noteq> ''/alive''" using assms by (intro neq_by_last) simp
  ultimately show ?thesis by (simp add: newServeMux_value_def)
qed

lemma newServeMux_m_ready:
  "mux_m newServeMux_value (host @ ''/ready'') = None"
proof -
  have "host @ ''/ready'' \<noteq> ''ready''" by (rule neq_by_length) simp
  moreover have "host @ ''/ready'' \<noteq> ''/alive''" by (rule neq_by_last) simp
  ultimately show ?thesis by (simp add: newServeMux_value_def)
qed


lemma cleanPath_missing: "cleanPath ''/missing'' = ''/missing''"
  by (simp add: cleanPath_def Clean_rooted_def cleanStep_def Let_def)

lemma cleanPath_ready: "cleanPath ''/ready'' = ''/ready''"
  by (simp add: cleanPath_def Clean_rooted_def cleanStep_def Let_def)


lemma newServeMux_Handler_none:
  assumes "Method r = ''GET''" "Path (URL r) = p" "cleanPath p = p"
    and m: "\<And>host. mux_m newServeMux_value (host @ p) = None"
    and m': "\<And>host. mux_m newServeMux_value (host @ p @ ''/'') = None"
  shows "ServeMux_Handler newServeMux_value r = (NotFound, [])"
proof -
  have h: "mux_hosts newServeMux_value" "mux_es newServeMux_value = []"
    by (simp_all add: newServeMux_value_def)
  have "ServeMux_handler newServeMux_value host p = (NotFound, [])" for host
    using m [of host] m [of "[]"]
    by (simp add: ServeMux_handler_def ServeMux_match_def h)
  then show ?thesis
    using assms(1-3) m [of "[]"] m' [of "[]"] m m'
    by (simp add: ServeMux_Handler_def redirectToPathSlash_def
        shouldRedirectRLocked_def Let_def)
qed

lemma newServeMux_Handler_missing:
  assumes "Method r = ''GET''" "Path (URL r) = ''/missing''"
  shows "ServeMux_Handler newServeMux_value r = (NotFound, [])"
proof (rule newServeMux_Handler_none [OF assms cleanPath_missing])
  show "mux_m newServeMux_value (host @ ''/missing'') = None" for host
    by (rule newServeMux_m_other) simp_all
  show "mux_m newServeMux_value (host @ ''/missing'' @ ''/'') = None" for host
    by (rule newServeMux_m_other) simp_all
qed

lemma newServeMux_Handler_ready:
  assumes "Method r = ''GET''" "Path (URL r) = ''/ready''"
  shows "ServeMux_Handler newServeMux_value r = (NotFound, [])"
proof (rule newServeMux_Handler_none [OF assms cleanPath_ready])
  show "mux_m newServeMux_value (host @ ''/ready'') = None" for host
    by (rule newServeMux_m_ready)
  show "mux_m newServeMux_value (host @ ''/ready'' @ ''/'') = None" for host
    by (rule newServeMux_m_other) simp_all
qed

lemma canonical_ct: "CanonicalMIMEHeaderKey ''Content-Type'' = ''Content-Type''"
  by (simp add: CanonicalMIMEHeaderKey_def validHeaderFieldByte_def canonicalByte_def
      isLower_def isUpper_def isDigit_def byte_def)

lemma canonical_xcto:
  "CanonicalMIMEHeaderKey ''X-Content-Type-Options'' = ''X-Content-Type-Options''"
  by (simp add: CanonicalMIMEHeaderKey_def validHeaderFieldByte_def canonicalByte_def
      isLower_def isUpper_def isDigit_def byte_def)

lemma NotFound_fresh:
  "NotFound r (s\<lparr>resp := newResponse\<rparr>) = (Returned, s\<lparr>resp := notFoundResponse\<rparr>)"
  by (simp add: NotFound_def Error_def andThen_def WriteHeader_def Write_def SetHeader_def
      Header_Set_def canonical_ct canonical_xcto StatusNotFound_def bodyAllowedForStatus_def
      newResponse_def notFoundResponse_def)

lemma serve_NotFound:
  assumes "RequestURI r \<noteq> ''*''" "ServeMux_Handler mux r = (NotFound, p)"
  shows "serve (ServeMux_ServeHTTP mux) r s = (Returned, s\<lparr>resp := notFoundResponse\<rparr>)"
  using assms
  by (simp add: serve_def serverHandler_ServeHTTP_def ServeMux_ServeHTTP_def NotFound_fresh
      andThen_def finishRequest_def notFoundResponse_def)















text \<open>
  C7.  \<open>newServeMux\<close> registers the pattern \<open>ready\<close>, without the leading
  slash; nothing is registered under \<open>/ready\<close>, and a \<open>GET\<close> request for
  \<open>/ready\<close> is answered 404, not 200 with \<open>always\<close>.
\<close>

theorem newServeMux_ready_not_found:
  "newServeMux = Inr newServeMux_value
   \<and> mux_m newServeMux_value ''/ready'' = None
   \<and> serve (ServeMux_ServeHTTP newServeMux_value) (exampleRequest ''GET'' ''/ready'' Map.empty) initState =
       (Returned, initState\<lparr>resp := notFoundResponse\<rparr>)"
proof -
  let ?r = "exampleRequest ''GET'' ''/ready'' Map.empty"
  have "ServeMux_Handler newServeMux_value ?r = (NotFound, [])"
    by (rule newServeMux_Handler_ready) (simp_all add: exampleRequest_def)
  moreover have "RequestURI ?r \<noteq> ''*''" by (simp add: exampleRequest_def)
  ultimately have "serve (ServeMux_ServeHTTP newServeMux_value) ?r initState =
      (Returned, initState\<lparr>resp := notFoundResponse\<rparr>)"
    by (rule serve_NotFound [rotated])
  moreover have "mux_m newServeMux_value ''/ready'' = None"
    using newServeMux_m_ready [of "[]"] by simp
  ultimately show ?thesis using newServeMux_eq by simp
qed


section \<open>Longest match\<close>























section \<open>The nested multiplexers of parentChildMux\<close>






















section \<open>The order of middleware\<close>


lemma post_phases_snoc:
  "post_phases (starts @ [start]) r out = andThen (post_phases starts r out) (timerPost start r)"
  by (induction starts arbitrary: out) simp_all

lemma RequestTimer_phases:
  "RequestTimer h r s = andThen (h r (snd (Now s))) (timerPost (fst (Now s)) r)"
proof -
  have "timerPost (fst (Now s)) r =
          (\<lambda>s2. let (endt, s3) = Now s2 in
             (Returned,
              Printf ''request time for %ss: %v''
                [ArgString (Path (URL r)), ArgDuration (Time_Sub endt (fst (Now s)))] s3))"
    by (rule ext) (simp add: timerPost_def)
  then show ?thesis
    by (simp add: RequestTimer_def split_beta)
qed

lemma chain_phased: "chain ms h r s = phased ms h r s"
proof (induction ms arbitrary: s)
  case Nil
  then show ?case by (simp add: chain_def phased_def)
next
  case (Cons m ms)
  show ?case
  proof (cases m)
    case Timing
    obtain starts rejected s2 where p: "pre_phases ms r (snd (Now s)) = (starts, rejected, s2)"
      by (cases "pre_phases ms r (snd (Now s))") auto
    have "chain (m # ms) h r s = andThen (chain ms h r (snd (Now s))) (timerPost (fst (Now s)) r)"
      using Timing by (simp add: chain_def RequestTimer_phases)
    also have "\<dots> = andThen (phased ms h r (snd (Now s))) (timerPost (fst (Now s)) r)"
      using Cons.IH [of "snd (Now s)"] by simp
    also have "\<dots> = phased (m # ms) h r s"
      using Timing p by (simp add: phased_def post_phases_snoc split_beta)
    finally show ?thesis .
  next
    case (Auth password)
    show ?thesis
    proof (cases "Header_Get (Header r) ''X-Secret-Password'' \<noteq> password")
      case True
      then show ?thesis using Auth
        by (simp add: chain_def phased_def TerribleSecurityProvider_def reject_def)
    next
      case False
      then have "chain (m # ms) h r s = chain ms h r s"
        using Auth by (simp add: chain_def TerribleSecurityProvider_def)
      moreover have "phased (m # ms) h r s = phased ms h r s"
        using Auth False by (simp add: phased_def)
      ultimately show ?thesis using Cons.IH [of s] by simp
    qed
  qed
qed

lemma reject_fresh:
  "\<not> wroteHeader (resp s) \<Longrightarrow>
   reject s = (Returned, s\<lparr>resp := (resp s)\<lparr>wroteHeader := True, status := 401,
        cw_header := handlerHeader (resp s), body := body (resp s) @ securityMsg\<rparr>\<rparr>)"
  by (simp add: reject_def unauthorized_fresh)

text \<open>
  C4.  When the authorization check fails, \<open>Auth(Timing(H))\<close> (the nesting of
  \<open>muxWithMiddleware\<close>) only writes the rejection: \<open>H\<close> and the timer are
  not run; \<open>Timing(Auth(H))\<close> on a fresh writer writes the rejection and then
  emits the timer's one record, with both clock readings taken around the check.  When
  the check passes, both nestings are the timer around \<open>H\<close>: the check comes
  before \<open>H\<close>.  In general the nesting \<open>M1(M2(...Mn(h)))\<close> runs the
  pre-phases in the order of the list, then \<open>h\<close>, then the post-phases in reverse
  order.
\<close>

theorem middleware_order:
  "(Header_Get (Header r) ''X-Secret-Password'' \<noteq> password \<longrightarrow>
      TerribleSecurityProvider password (RequestTimer h) r s = reject s
      \<and> (\<not> wroteHeader (resp s) \<longrightarrow>
           RequestTimer (TerribleSecurityProvider password h) r s =
             (Returned,
              s\<lparr>resp := (resp s)\<lparr>wroteHeader := True, status := 401,
                      cw_header := handlerHeader (resp s),
                      body := body (resp s) @ securityMsg\<rparr>,
                 ticks := Suc (Suc (ticks s)),
                 logs := logs s @
                   [(''request time for %ss: %v'',
                     [ArgString (Path (URL r)),
                      ArgDuration (Time_Sub (clock s (Suc (ticks s))) (clock s (ticks s)))])]\<rparr>)))
   \<and> (Header_Get (Header r) ''X-Secret-Password'' = password \<longrightarrow>
        TerribleSecurityProvider password (RequestTimer h) r s = RequestTimer h r s
        \<and> RequestTimer (TerribleSecurityProvider password h) r s = RequestTimer h r s)
   \<and> muxWithMiddleware =
        Handle ''/hello'' (chain [Auth ''PASSWORD'', Timing] hello) NewServeMux
   \<and> chain ms h r s = phased ms h r s"
proof (intro conjI impI)
  assume ne: "Header_Get (Header r) ''X-Secret-Password'' \<noteq> password"
  then show "TerribleSecurityProvider password (RequestTimer h) r s = reject s"
    by (simp add: TerribleSecurityProvider_def reject_def)
  assume fresh: "\<not> wroteHeader (resp s)"
  have "TerribleSecurityProvider password h r (snd (Now s)) = reject (snd (Now s))"
    using ne by (simp add: TerribleSecurityProvider_def reject_def)
  moreover have "\<not> wroteHeader (resp (snd (Now s)))"
    using fresh by (simp add: Now_def)
  ultimately show "RequestTimer (TerribleSecurityProvider password h) r s =
             (Returned,
              s\<lparr>resp := (resp s)\<lparr>wroteHeader := True, status := 401,
                      cw_header := handlerHeader (resp s),
                      body := body (resp s) @ securityMsg\<rparr>,
                 ticks := Suc (Suc (ticks s)),
                 logs := logs s @
                   [(''request time for %ss: %v'',
                     [ArgString (Path (URL r)),
                      ArgDuration (Time_Sub (clock s (Suc (ticks s))) (clock s (ticks s)))])]\<rparr>)"
    by (simp add: RequestTimer_phases reject_fresh andThen_def timerPost_def Now_def Printf_def)
next
  assume eq: "Header_Get (Header r) ''X-Secret-Password'' = password"
  then show "TerribleSecurityProvider password (RequestTimer h) r s = RequestTimer h r s"
    by (simp add: TerribleSecurityProvider_def)
  from eq have "TerribleSecurityProvider password h r = h r"
    by (simp add: TerribleSecurityProvider_def fun_eq_iff)
  then show "RequestTimer (TerribleSecurityProvider password h) r s = RequestTimer h r s"
    by (simp add: RequestTimer_def)
next
  show "muxWithMiddleware = Handle ''/hello'' (chain [Auth ''PASSWORD'', Timing] hello) NewServeMux"
    by (simp add: muxWithMiddleware_def chain_def)
next
  show "chain ms h r s = phased ms h r s" by (rule chain_phased)
qed

lemma Time_Sub_small: "Time_Sub 1000 0 = 1000" "Time_Sub 3000 0 = 3000" "Time_Sub 2000 1000 = 1000"
  by (simp_all add: Time_Sub_def maxDuration_def minDuration_def)

lemma hello_fresh:
  "hello r (initState\<lparr>ticks := n\<rparr>) = (Returned, initState\<lparr>resp := helloResponse, ticks := n\<rparr>)"
  by (simp add: hello_def Write_def WriteHeader_def StatusOK_def bodyAllowedForStatus_def
      initState_def newResponse_def helloResponse_def)

theorem middleware_order_witness:
  "TerribleSecurityProvider ''PASSWORD'' (RequestTimer hello)
     (exampleRequest ''GET'' ''/hello'' Map.empty) initState =
     (Returned, initState\<lparr>resp := unauthorizedResponse\<rparr>)
   \<and> RequestTimer (TerribleSecurityProvider ''PASSWORD'' hello)
       (exampleRequest ''GET'' ''/hello'' Map.empty) initState =
     (Returned,
      initState\<lparr>resp := unauthorizedResponse, ticks := 2,
                 logs := [(''request time for %ss: %v'', [ArgString ''/hello'', ArgDuration 1000])]\<rparr>)
   \<and> TerribleSecurityProvider ''PASSWORD'' (RequestTimer hello)
       (exampleRequest ''GET'' ''/hello'' [''X-Secret-Password'' \<mapsto> [''PASSWORD'']]) initState =
     (Returned,
      initState\<lparr>resp := helloResponse, ticks := 2,
                 logs := [(''request time for %ss: %v'', [ArgString ''/hello'', ArgDuration 1000])]\<rparr>)
   \<and> chain [Timing, Auth ''PASSWORD'', Timing] hello
       (exampleRequest ''GET'' ''/hello'' [''X-Secret-Password'' \<mapsto> [''PASSWORD'']]) initState =
     (Returned,
      initState\<lparr>resp := helloResponse, ticks := 4,
                 logs := [(''request time for %ss: %v'', [ArgString ''/hello'', ArgDuration 1000]),
                          (''request time for %ss: %v'', [ArgString ''/hello'', ArgDuration 3000])]\<rparr>)"
proof -
  let ?r1 = "exampleRequest ''GET'' ''/hello'' Map.empty"
  let ?r2 = "exampleRequest ''GET'' ''/hello'' [''X-Secret-Password'' \<mapsto> [''PASSWORD'']]"
  have ne: "Header_Get (Header ?r1) ''X-Secret-Password'' \<noteq> ''PASSWORD''"
    by (simp add: Header_Get_def canonical_secret_key exampleRequest_def)
  have eq: "Header_Get (Header ?r2) ''X-Secret-Password'' = ''PASSWORD''"
    by (simp add: Header_Get_def canonical_secret_key exampleRequest_def)
  have fresh: "\<not> wroteHeader (resp initState)"
    by (simp add: initState_def newResponse_def)
  have p: "Path (URL ?r1) = ''/hello''" "Path (URL ?r2) = ''/hello''"
    by (simp_all add: exampleRequest_def)
  have 1: "TerribleSecurityProvider ''PASSWORD'' (RequestTimer hello) ?r1 initState =
             (Returned, initState\<lparr>resp := unauthorizedResponse\<rparr>)"
  proof -
    have "TerribleSecurityProvider ''PASSWORD'' (RequestTimer hello) ?r1 initState = reject initState"
      using middleware_order [where r = ?r1 and password = "''PASSWORD''" and h = hello and s = initState]
        ne by blast
    then show ?thesis
      by (simp add: reject_fresh fresh) (simp add: initState_def newResponse_def unauthorizedResponse_def)
  qed
  have 2: "RequestTimer (TerribleSecurityProvider ''PASSWORD'' hello) ?r1 initState =
     (Returned,
      initState\<lparr>resp := unauthorizedResponse, ticks := 2,
                 logs := [(''request time for %ss: %v'', [ArgString ''/hello'', ArgDuration 1000])]\<rparr>)"
  proof -
    have "RequestTimer (TerribleSecurityProvider ''PASSWORD'' hello) ?r1 initState =
             (Returned,
              initState\<lparr>resp := (resp initState)\<lparr>wroteHeader := True, status := 401,
                      cw_header := handlerHeader (resp initState),
                      body := body (resp initState) @ securityMsg\<rparr>,
                 ticks := Suc (Suc (ticks initState)),
                 logs := logs initState @
                   [(''request time for %ss: %v'',
                     [ArgString (Path (URL ?r1)),
                      ArgDuration (Time_Sub (clock initState (Suc (ticks initState)))
                                     (clock initState (ticks initState)))])]\<rparr>)"
      using middleware_order [where r = ?r1 and password = "''PASSWORD''" and h = hello and s = initState]
        ne fresh by blast
    then show ?thesis
      by (simp add: p) (simp add: initState_def newResponse_def unauthorizedResponse_def Time_Sub_small)
  qed
  have 3: "TerribleSecurityProvider ''PASSWORD'' (RequestTimer hello) ?r2 initState =
     (Returned,
      initState\<lparr>resp := helloResponse, ticks := 2,
                 logs := [(''request time for %ss: %v'', [ArgString ''/hello'', ArgDuration 1000])]\<rparr>)"
  proof -
    have "TerribleSecurityProvider ''PASSWORD'' (RequestTimer hello) ?r2 initState =
            RequestTimer hello ?r2 initState"
      using middleware_order [where r = ?r2 and password = "''PASSWORD''" and h = hello and s = initState]
        eq by blast
    moreover have "hello ?r2 (initState\<lparr>ticks := 1\<rparr>) = (Returned, initState\<lparr>resp := helloResponse, ticks := 1\<rparr>)"
      by (rule hello_fresh)
    ultimately show ?thesis
      by (simp add: RequestTimer_def Now_def andThen_def Printf_def p)
         (simp add: initState_def Time_Sub_small)
  qed
  have 4: "chain [Timing, Auth ''PASSWORD'', Timing] hello ?r2 initState =
     (Returned,
      initState\<lparr>resp := helloResponse, ticks := 4,
                 logs := [(''request time for %ss: %v'', [ArgString ''/hello'', ArgDuration 1000]),
                          (''request time for %ss: %v'', [ArgString ''/hello'', ArgDuration 3000])]\<rparr>)"
  proof -
    have "chain [Timing, Auth ''PASSWORD'', Timing] hello ?r2 initState =
            phased [Timing, Auth ''PASSWORD'', Timing] hello ?r2 initState"
      using middleware_order [where r = ?r2 and password = "''PASSWORD''" and h = hello and s = initState
          and ms = "[Timing, Auth ''PASSWORD'', Timing]"]
      by blast
    moreover have "hello ?r2 (initState\<lparr>ticks := 2\<rparr>) = (Returned, initState\<lparr>resp := helloResponse, ticks := 2\<rparr>)"
      by (rule hello_fresh)
    moreover have "initState\<lparr>ticks := Suc (Suc 0)\<rparr> = initState\<lparr>ticks := 2\<rparr>"
      by (simp add: numeral_2_eq_2)
    ultimately show ?thesis
      by (simp add: phased_def eq Now_def andThen_def timerPost_def Printf_def p initState_def
          Time_Sub_small numeral_2_eq_2 numeral_3_eq_3)
  qed
  from 1 2 3 4 show ?thesis by blast
qed


section \<open>Decoding a value into testJSON\<close>


lemma saveError_eq: "saveError e saved = Some (case saved of None \<Rightarrow> e | Some x \<Rightarrow> x)"
  by (simp add: saveError_def split: option.splits)

lemma member_error_kept: "fst st \<noteq> None \<Longrightarrow> fst (member d st kv) \<noteq> None"
  by (cases "snd kv") (auto simp: member_def storeName_def saveError_eq)

lemma members_error_kept: "fst st \<noteq> None \<Longrightarrow> fst (foldl (member d) st ms) \<noteq> None"
proof (induction ms arbitrary: st)
  case Nil
  then show ?case by simp
next
  case (Cons kv ms)
  show ?case using Cons.IH [OF member_error_kept [OF Cons.prems, of d kv]] by simp
qed










section \<open>String literals the scanner accepts can be unquoted\<close>


lemma str_run_simps [simp]:
  "str_run st [] = st"
  "str_run st (c # cs) = str_run (str_step st c) cs"
  "str_run st (xs @ ys) = str_run (str_run st xs) ys"
  by (simp_all add: str_run_def)

lemma str_run_Error [simp]: "str_run StateError bs = StateError"
  by (induction bs) simp_all

lemma str_run_EndValue: "bs \<noteq> [] \<Longrightarrow> str_run StateEndValue bs = StateError"
  by (cases bs) simp_all

lemma hexValue_isHex: "hexValue c \<noteq> None \<longleftrightarrow> isHex c"
  by (auto simp: hexValue_def isHex_def in_range_def)

lemma isHex_hexValue: "isHex c \<Longrightarrow> \<exists>v. hexValue c = Some v"
  using hexValue_isHex [of c] by auto

lemma plain_step: "plain c \<Longrightarrow> str_step StateInString c = StateInString"
proof -
  assume "plain c"
  then have "byte c \<ge> 0x80" by (simp add: plain_def)
  moreover have "byte (CHR 0x22) = 0x22" "byte (CHR 0x5C) = 0x5C" by (simp_all add: byte_def)
  ultimately have "c \<noteq> CHR 0x22" "c \<noteq> CHR 0x5C" "\<not> byte c < 0x20" by auto
  then show ?thesis by simp
qed

lemma plain_drop:
  "list_all plain (take k cs) \<Longrightarrow> str_run StateInString (drop k cs) = str_run StateInString cs"
proof (induction k arbitrary: cs)
  case 0
  then show ?case by simp
next
  case (Suc k)
  then show ?case by (cases cs) (simp_all add: plain_step del: str_step.simps)
qed

lemma utf8_size_le: "utf8_size p \<le> 4"
  by (cases p) (simp_all add: utf8_size_def Let_def)

lemma utf8_size_plain:
  assumes "utf8_size (c # cs) = Suc k"
  shows "list_all plain (take k cs)"
proof -
  have k: "k \<le> 3" using utf8_size_le [of "c # cs"] assms by simp
  have len: "Suc k \<le> length (c # cs)"
    using assms by (cases cs) (auto simp: utf8_size_def Let_def Suc_le_eq split: if_splits)
  have 1: "plain (cs ! 0)" if "1 \<le> k"
    using assms that by (auto simp: utf8_size_def Let_def in_range_def plain_def split: if_splits)
  have 2: "plain (cs ! 1)" if "2 \<le> k"
    using assms that by (auto simp: utf8_size_def Let_def in_range_def plain_def split: if_splits)
  have 3: "plain (cs ! 2)" if "3 \<le> k"
    using assms that by (auto simp: utf8_size_def Let_def in_range_def plain_def split: if_splits)
  have "plain (cs ! i)" if "i < k" for i
  proof -
    from that k have "i = 0 \<or> i = 1 \<or> i = 2" by auto
    then show ?thesis using 1 2 3 that by auto
  qed
  then show ?thesis
    using len by (auto simp: list_all_length)
qed

lemma str_run_EscU:
  assumes "str_run StateInStringEscU rest = StateInString"
  shows "\<exists>h1 h2 h3 h4 rest'. rest = h1 # h2 # h3 # h4 # rest' \<and> isHex h1 \<and> isHex h2 \<and>
           isHex h3 \<and> isHex h4 \<and> str_run StateInString rest' = StateInString"
proof -
  obtain h1 r1 where 1: "rest = h1 # r1" using assms by (cases rest) auto
  have x1: "isHex h1" using assms 1 by (auto split: if_splits)
  then have a1: "str_run StateInStringEscU1 r1 = StateInString" using assms 1 by simp
  obtain h2 r2 where 2: "r1 = h2 # r2" using a1 by (cases r1) auto
  have x2: "isHex h2" using a1 2 by (auto split: if_splits)
  then have a2: "str_run StateInStringEscU12 r2 = StateInString" using a1 2 by simp
  obtain h3 r3 where 3: "r2 = h3 # r3" using a2 by (cases r2) auto
  have x3: "isHex h3" using a2 3 by (auto split: if_splits)
  then have a3: "str_run StateInStringEscU123 r3 = StateInString" using a2 3 by simp
  obtain h4 r4 where 4: "r3 = h4 # r4" using a3 by (cases r3) auto
  have x4: "isHex h4" using a3 4 by (auto split: if_splits)
  then have a4: "str_run StateInString r4 = StateInString" using a3 4 by simp
  show ?thesis using 1 2 3 4 x1 x2 x3 x4 a4 by blast
qed

lemma getu4_hex:
  "isHex h1 \<Longrightarrow> isHex h2 \<Longrightarrow> isHex h3 \<Longrightarrow> isHex h4 \<Longrightarrow>
   \<exists>r. getu4 (CHR 0x5C # CHR ''u'' # h1 # h2 # h3 # h4 # rest) = Some r"
  by (auto simp: getu4_def dest!: isHex_hexValue)

lemma getu4_Some:
  assumes "getu4 s = Some r"
  shows "\<exists>h1 h2 h3 h4 rest. s = CHR 0x5C # CHR ''u'' # h1 # h2 # h3 # h4 # rest \<and>
           isHex h1 \<and> isHex h2 \<and> isHex h3 \<and> isHex h4"
  using assms
  by (auto simp: getu4_def hexValue_isHex [symmetric] split: list.splits if_splits option.splits)

lemma str_run_escape:
  "isHex h1 \<Longrightarrow> isHex h2 \<Longrightarrow> isHex h3 \<Longrightarrow> isHex h4 \<Longrightarrow>
   str_run StateInString (CHR 0x5C # CHR ''u'' # h1 # h2 # h3 # h4 # rest) = str_run StateInString rest"
  by simp

lemma unquoteBody_ok:
  "str_run StateInString bdy = StateInString \<Longrightarrow> \<exists>r. unquoteBody bdy = Some r"
proof (induction "length bdy" arbitrary: bdy rule: less_induct)
  case less
  note IH = less.hyps
  show ?case
  proof (cases bdy)
    case Nil
    then show ?thesis by simp
  next
    case (Cons c cs)
    have run: "str_run (str_step StateInString c) cs = StateInString"
      using less.prems Cons by simp
    consider (esc) "c = CHR 0x5C" | (bad) "c \<noteq> CHR 0x5C" "c = CHR 0x22 \<or> byte c < 0x20"
      | (ascii) "c \<noteq> CHR 0x5C" "c \<noteq> CHR 0x22" "\<not> byte c < 0x20" "byte c < 0x80"
      | (high) "c \<noteq> CHR 0x5C" "c \<noteq> CHR 0x22" "\<not> byte c < 0x20" "\<not> byte c < 0x80"
      by blast
    then show ?thesis
    proof cases
      case bad
      then have "str_step StateInString c = StateEndValue \<or> str_step StateInString c = StateError"
        by auto
      then have False
        using run str_run_EndValue [of cs] by (cases "cs = []") auto
      then show ?thesis ..
    next
      case ascii
      then have "str_run StateInString cs = StateInString" using run by simp
      from IH [OF _ this] obtain r where "unquoteBody cs = Some r" using Cons by auto
      then show ?thesis using Cons ascii by simp
    next
      case high
      then have cs_run: "str_run StateInString cs = StateInString" using run by simp
      show ?thesis
      proof (cases "utf8_size (c # cs)")
        case 0
        from IH [OF _ cs_run] obtain r where "unquoteBody cs = Some r" using Cons by auto
        then show ?thesis using Cons high 0 by simp
      next
        case (Suc k)
        have "str_run StateInString (drop k cs) = StateInString"
          using plain_drop [OF utf8_size_plain [OF Suc]] cs_run by simp
        moreover have "length (drop k cs) < length bdy" using Cons by simp
        ultimately obtain r where "unquoteBody (drop k cs) = Some r" using IH by blast
        then show ?thesis using Cons high Suc by simp
      qed
    next
      case esc
      then have r1: "str_run StateInStringEsc cs = StateInString" using run by simp
      then obtain e rest where cs: "cs = e # rest" by (cases cs) auto
      have r2: "str_run (str_step StateInStringEsc e) rest = StateInString" using r1 cs by simp
      show ?thesis
      proof (cases "e = CHR ''u''")
        case False
        then have simple: "e \<in> set ''bfnrt/'' \<or> e = CHR 0x5C \<or> e = CHR 0x22"
          using r2 by (auto split: if_splits)
        then have "str_run StateInString rest = StateInString" using r2 by auto
        from IH [OF _ this] obtain r where "unquoteBody rest = Some r" using Cons cs by auto
        then show ?thesis using Cons cs esc simple False by auto
      next
        case True
        then have "str_run StateInStringEscU rest = StateInString" using r2 by simp
        from str_run_EscU [OF this] obtain h1 h2 h3 h4 rest' where
          rest: "rest = h1 # h2 # h3 # h4 # rest'" and hex: "isHex h1" "isHex h2" "isHex h3" "isHex h4"
          and r3: "str_run StateInString rest' = StateInString" by blast
        from getu4_hex [OF hex] obtain rr where
          g: "getu4 (CHR 0x5C # CHR ''u'' # h1 # h2 # h3 # h4 # rest') = Some rr" by blast
        have d5: "drop 5 cs = rest'" using cs rest by simp
        from IH [OF _ r3] obtain q where q: "unquoteBody rest' = Some q"
          using Cons cs rest by auto
        show ?thesis
        proof (cases "0xD800 \<le> rr \<and> rr < 0xE000 \<and> utf16_DecodeRune rr (getu4 rest') \<noteq> RuneError")
          case False
          then show ?thesis using Cons cs rest esc True g q d5 by (auto simp: Let_def)
        next
          case pair: True
          then obtain r2' where g2: "getu4 rest' = Some r2'"
            by (cases "getu4 rest'") (auto simp: utf16_DecodeRune_def)
          from getu4_Some [OF g2] obtain k1 k2 k3 k4 rest'' where
            rest': "rest' = CHR 0x5C # CHR ''u'' # k1 # k2 # k3 # k4 # rest''"
            and hex': "isHex k1" "isHex k2" "isHex k3" "isHex k4" by blast
          have "str_run StateInString rest'' = StateInString"
            using r3 rest' str_run_escape [OF hex', of rest''] by simp
          from IH [OF _ this] obtain q' where q': "unquoteBody rest'' = Some q'"
            using Cons cs rest rest' by auto
          have d11: "drop 11 cs = rest''" using cs rest rest' by simp
          show ?thesis using Cons cs rest esc True g pair q' d5 d11 by (auto simp: Let_def)
        qed
      qed
    qed
  qed
qed


section \<open>The walk keeps its invariant\<close>


lemma numeric_has_value: "numeric item \<Longrightarrow> has_value (Literal item)"
proof -
  assume "numeric item"
  then obtain c cs where i: "item = c # cs" and c: "c = CHR ''-'' \<or> isDigit c"
    by (auto simp: numeric_def)
  have "c \<noteq> CHR ''n''" "c \<noteq> CHR ''t''" "c \<noteq> CHR ''f''" "c \<noteq> CHR 0x22"
    using c by (auto simp: isDigit_def byte_def)
  then show ?thesis using i by (simp add: has_value_def finish_def literalValue_def)
qed

lemma lettered_has_value: "lettered item \<Longrightarrow> has_value (Literal item)"
  by (auto simp: lettered_def has_value_def finish_def literalValue_def)

lemma numeric_snoc: "numeric item \<Longrightarrow> numeric (item @ [c])"
  by (auto simp: numeric_def)

lemma lettered_snoc: "lettered item \<Longrightarrow> lettered (item @ [c])"
  by (auto simp: lettered_def)

lemma unquoteBytes_closed:
  assumes "str_run StateInString bdy = StateInString"
  shows "\<exists>key. unquoteBytes (CHR 0x22 # bdy @ [CHR 0x22]) = Some key"
proof -
  from unquoteBody_ok [OF assms] obtain r where "unquoteBody bdy = Some r" by blast
  then show ?thesis by (simp add: unquoteBytes_def butlast_append)
qed

lemma string_closed:
  assumes "str_run StateInString bdy = StateInString"
  shows "key_literal (Literal (CHR 0x22 # bdy @ [CHR 0x22]))"
    and "has_value (Literal (CHR 0x22 # bdy @ [CHR 0x22]))"
  using unquoteBytes_closed [OF assms]
  by (auto simp: key_literal_def has_value_def finish_def literalValue_def)

lemma frame_matches_key: "frame_matches fr parseObjectKey \<longleftrightarrow> (\<exists>ms. fr = FObject ms None)"
  by (cases "(fr, parseObjectKey)" rule: frame_matches.cases) auto

lemma frame_matches_value:
  "frame_matches fr parseObjectValue \<longleftrightarrow> (\<exists>ms k. fr = FObject ms (Some k))"
  by (cases "(fr, parseObjectValue)" rule: frame_matches.cases) auto

lemma frame_matches_array: "frame_matches fr parseArrayValue \<longleftrightarrow> (\<exists>vs. fr = FArray vs)"
  by (cases "(fr, parseArrayValue)" rule: frame_matches.cases) auto

lemma stateEndValue_inv:
  assumes f: "list_all2 frame_matches stk (parseState s)"
    and t: "list_all (\<lambda>p. p \<noteq> parseObjectKey) (tl (parseState s))"
    and v: "if at_key (parseState s) then key_literal p else has_value p"
    and st: "stateEndValue s c = (opc, sc)" and ne: "opc \<noteq> scanError" "opc \<noteq> scanEnd"
  shows "walk_inv (walk_op opc c \<lparr>scan = sc, cur = p, stack = stk, failed = False\<rparr>)"
proof (cases "parseState s")
  case Nil
  then show ?thesis using st ne by (auto simp: stateEndValue_def stateEndTop_def split: if_splits)
next
  case (Cons ps rest)
  then obtain fr fs where stk: "stk = fr # fs" and fm: "frame_matches fr ps"
    and fs: "list_all2 frame_matches fs rest"
    using f by (cases stk) auto
  show ?thesis
  proof (cases "isSpace c")
    case True
    then show ?thesis using Cons st f t v
      by (auto simp: stateEndValue_def walk_op_def walk_inv_def)
  next
    case False
    show ?thesis
    proof (cases ps)
      case parseObjectKey
      then obtain ms where fr: "fr = FObject ms None" using fm by (auto simp: frame_matches_key frame_matches_value frame_matches_array)
      from v Cons parseObjectKey obtain item key where p: "p = Literal item" "unquoteBytes item = Some key"
        by (auto simp: at_key_def key_literal_def)
      show ?thesis using Cons parseObjectKey False st ne t fs stk fr p
        by (auto simp: stateEndValue_def scan_error_def walk_op_def walk_inv_def at_key_def
            split: if_splits)
    next
      case parseObjectValue
      then obtain ms k where fr: "fr = FObject ms (Some k)" using fm by (auto simp: frame_matches_key frame_matches_value frame_matches_array)
      from v Cons parseObjectValue obtain x where p: "finish p = Some (Some x)"
        by (auto simp: at_key_def has_value_def)
      have nk: "\<not> at_key rest" using t Cons by (cases rest) (auto simp: at_key_def split: parse_state.splits)
      show ?thesis using Cons parseObjectValue False st ne t fs stk fr p nk
        by (cases rest)
           (auto simp: stateEndValue_def scan_error_def popParseState_def walk_op_def walk_inv_def
            at_key_def has_value_def finish_def Let_def split: if_splits)
    next
      case parseArrayValue
      then obtain vs where fr: "fr = FArray vs" using fm by (auto simp: frame_matches_key frame_matches_value frame_matches_array)
      from v Cons parseArrayValue obtain x where p: "finish p = Some (Some x)"
        by (auto simp: at_key_def has_value_def)
      have nk: "\<not> at_key rest" using t Cons by (cases rest) (auto simp: at_key_def split: parse_state.splits)
      show ?thesis using Cons parseArrayValue False st ne t fs stk fr p nk
        by (cases rest)
           (auto simp: stateEndValue_def scan_error_def popParseState_def walk_op_def walk_inv_def
            at_key_def has_value_def finish_def Let_def split: if_splits)
    qed
  qed
qed

lemma no_key_below:
  "\<not> at_key ps \<Longrightarrow> list_all (\<lambda>p. p \<noteq> parseObjectKey) (tl ps) \<Longrightarrow>
   list_all (\<lambda>p. p \<noteq> parseObjectKey) ps"
  by (cases ps) (auto simp: at_key_def split: parse_state.splits)

lemma not_key_rest:
  "list_all (\<lambda>p. p \<noteq> parseObjectKey) rest \<Longrightarrow> \<not> at_key rest"
  by (cases rest) (auto simp: at_key_def split: parse_state.splits)

lemma stateBeginValue_inv:
  assumes f: "list_all2 frame_matches stk (parseState s)"
    and t: "list_all (\<lambda>p. p \<noteq> parseObjectKey) (tl (parseState s))"
    and k: "\<not> at_key (parseState s)"
    and st: "stateBeginValue s c = (opc, sc)" and ne: "opc \<noteq> scanError"
    and sv: "step s = StateBeginValue \<or> step s = StateBeginValueOrEmpty"
    and ar: "step s = StateBeginValueOrEmpty \<longrightarrow> (\<exists>rest. parseState s = parseArrayValue # rest)"
  shows "walk_inv (walk_op opc c \<lparr>scan = sc, cur = NoValue, stack = stk, failed = False\<rparr>)"
proof -
  note below = no_key_below [OF k t]
  have d: "isDigit c \<Longrightarrow> numeric [c]" "c = CHR ''-'' \<Longrightarrow> numeric [c]"
    by (auto simp: numeric_def)
  have one: "byte (CHR ''1'') \<le> byte c \<and> byte c \<le> byte (CHR ''9'') \<Longrightarrow> isDigit c"
    by (auto simp: isDigit_def byte_def)
  have zero: "isDigit (CHR ''0'')" by (simp add: isDigit_def byte_def)
  have l: "lettered [CHR ''t'']" "lettered [CHR ''f'']" "lettered [CHR ''n'']"
    by (auto simp: lettered_def)
  have q: "string_in StateInString (Literal [CHR 0x22])"
    by (simp add: string_in_def)
  have akey: "at_key (parseObjectKey # ps)" for ps by (simp add: at_key_def)
  consider (sp) "isSpace c" | (obj) "\<not> isSpace c" "c = CHR ''{''" | (arr) "\<not> isSpace c" "c = CHR ''[''"
    | (lit) "\<not> isSpace c" "c \<noteq> CHR ''{''" "c \<noteq> CHR ''[''" by blast
  then show ?thesis
  proof cases
    case sp
    then have "opc = scanSkipSpace" "sc = s" using st by (auto simp: stateBeginValue_def)
    then show ?thesis using f t k sv ar
      by (auto simp: walk_op_def walk_inv_def)
  next
    case obj
    then show ?thesis using st ne f below
      by (auto simp: stateBeginValue_def pushParseState_def scan_error_def Let_def walk_op_def
          walk_inv_def akey split: if_splits)
  next
    case arr
    then show ?thesis using st ne f below
      by (auto simp: stateBeginValue_def pushParseState_def scan_error_def Let_def walk_op_def
          walk_inv_def split: if_splits)
  next
    case lit
    then show ?thesis using st ne f t k d one zero l q
      by (auto simp: stateBeginValue_def scan_error_def walk_op_def walk_inv_def
          in_number_def in_letters_def split: if_splits)
  qed
qed

lemma string_step_inv:
  assumes f: "list_all2 frame_matches stk (parseState s)"
    and t: "list_all (\<lambda>p. p \<noteq> parseObjectKey) (tl (parseState s))"
    and si: "string_in st p"
    and st: "st \<in> {StateInString, StateInStringEsc, StateInStringEscU, StateInStringEscU1,
                    StateInStringEscU12, StateInStringEscU123}"
    and ss: "step s = st"
    and sc: "scan_step s c = (opc, sc)" and ne: "opc \<noteq> scanError"
  shows "walk_inv (walk_op opc c \<lparr>scan = sc, cur = p, stack = stk, failed = False\<rparr>)"
proof -
  from si obtain bdy where p: "p = Literal (CHR 0x22 # bdy)" and run: "str_run StateInString bdy = st"
    by (auto simp: string_in_def)
  have res: "opc = scanContinue \<and> sc = s\<lparr>step := str_step st c\<rparr> \<and> str_step st c \<noteq> StateError"
    using st ss sc ne
    by (auto simp: scan_step_def stateInString_def stateInStringEsc_def stateHex_def
        continue_in_def scan_error_def split: if_splits)
  have run': "str_run StateInString (bdy @ [c]) = str_step st c" using run by simp
  have w: "walk_op opc c \<lparr>scan = sc, cur = p, stack = stk, failed = False\<rparr> =
           \<lparr>scan = s\<lparr>step := str_step st c\<rparr>, cur = Literal (CHR 0x22 # bdy @ [c]), stack = stk, failed = False\<rparr>"
    using res p by (simp add: walk_op_def)
  show ?thesis
  proof (cases "str_step st c = StateEndValue")
    case True
    then have "st = StateInString" "c = CHR 0x22" using st by (auto split: if_splits)
    then have "key_literal (Literal (CHR 0x22 # bdy @ [c]))" "has_value (Literal (CHR 0x22 # bdy @ [c]))"
      using string_closed [of bdy] run by auto
    then show ?thesis unfolding w using True f t by (simp add: walk_inv_def)
  next
    case False
    then have "str_step st c \<in> {StateInString, StateInStringEsc, StateInStringEscU, StateInStringEscU1,
                    StateInStringEscU12, StateInStringEscU123}"
      using st res by (auto split: if_splits)
    moreover have "string_in (str_step st c) (Literal (CHR 0x22 # bdy @ [c]))"
      unfolding string_in_def using run' by blast
    ultimately show ?thesis unfolding w using f t by (auto simp: walk_inv_def)
  qed
qed

lemma continue_literal_inv:
  assumes f: "list_all2 frame_matches stk (parseState s)"
    and t: "list_all (\<lambda>p. p \<noteq> parseObjectKey) (tl (parseState s))"
    and ok: "cur_ok nxt (parseState s) (Literal (item @ [c]))"
  shows "walk_inv (walk_op scanContinue c \<lparr>scan = s\<lparr>step := nxt\<rparr>, cur = Literal item, stack = stk, failed = False\<rparr>)"
  using assms by (simp add: walk_op_def walk_inv_def)

lemma number_step_inv:
  assumes f: "list_all2 frame_matches stk (parseState s)"
    and t: "list_all (\<lambda>p. p \<noteq> parseObjectKey) (tl (parseState s))"
    and n: "in_number (parseState s) p"
    and st: "step s \<in> {StateNeg, State1, State0, StateDot, StateDot0, StateE, StateESign, StateE0}"
    and sc: "scan_step s c = (opc, sc)" and ne: "opc \<noteq> scanError" "opc \<noteq> scanEnd"
  shows "walk_inv (walk_op opc c \<lparr>scan = sc, cur = p, stack = stk, failed = False\<rparr>)"
proof -
  from n obtain item where p: "p = Literal item" and num: "numeric item" and k: "\<not> at_key (parseState s)"
    by (auto simp: in_number_def)
  have v: "if at_key (parseState s) then key_literal p else has_value p"
    using k p numeric_has_value [OF num] by simp
  have num': "in_number (parseState s) (Literal (item @ [c]))"
    using numeric_snoc [OF num] k by (simp add: in_number_def)
  have cont: "walk_inv (walk_op scanContinue c \<lparr>scan = s\<lparr>step := nxt\<rparr>, cur = p, stack = stk, failed = False\<rparr>)"
    if "nxt \<in> {StateNeg, State1, State0, StateDot, StateDot0, StateE, StateESign, StateE0}" for nxt
    unfolding p using that num' by (intro continue_literal_inv [OF f t]) auto
  have same: "s\<lparr>step := step s\<rparr> = s" by simp
  have ev: "walk_inv (walk_op opc c \<lparr>scan = sc, cur = p, stack = stk, failed = False\<rparr>)"
    if "stateEndValue s c = (opc, sc)"
    using stateEndValue_inv [OF f t v that ne] .
  consider "step s = StateNeg" | "step s = State1" | "step s = State0" | "step s = StateDot"
    | "step s = StateDot0" | "step s = StateE" | "step s = StateESign" | "step s = StateE0"
    using st by auto
  then show ?thesis
  proof cases
    case 1
    then show ?thesis using sc ne cont
      by (auto simp: scan_step_def stateNeg_def continue_in_def scan_error_def split: if_splits)
  next
    case 2
    then show ?thesis using sc ne cont ev
      by (auto simp: scan_step_def state1_def state0_def continue_in_def scan_error_def split: if_splits)
  next
    case 3
    then show ?thesis using sc ne cont ev
      by (auto simp: scan_step_def state0_def continue_in_def scan_error_def split: if_splits)
  next
    case 4
    then show ?thesis using sc ne cont
      by (auto simp: scan_step_def stateDot_def continue_in_def scan_error_def split: if_splits)
  next
    case 5
    then have "s\<lparr>step := StateDot0\<rparr> = s" by (metis same)
    then have "walk_inv (walk_op scanContinue c \<lparr>scan = s, cur = p, stack = stk, failed = False\<rparr>)"
      using cont [of StateDot0] by simp
    then show ?thesis using 5 sc ne cont ev
      by (auto simp: scan_step_def stateDot0_def continue_in_def scan_error_def split: if_splits)
  next
    case 6
    then show ?thesis using sc ne cont
      by (auto simp: scan_step_def stateE_def stateESign_def continue_in_def scan_error_def split: if_splits)
  next
    case 7
    then show ?thesis using sc ne cont
      by (auto simp: scan_step_def stateESign_def continue_in_def scan_error_def split: if_splits)
  next
    case 8
    then have "s\<lparr>step := StateE0\<rparr> = s" by (metis same)
    then have "walk_inv (walk_op scanContinue c \<lparr>scan = s, cur = p, stack = stk, failed = False\<rparr>)"
      using cont [of StateE0] by simp
    then show ?thesis using 8 sc ne cont ev
      by (auto simp: scan_step_def stateE0_def continue_in_def scan_error_def split: if_splits)
  qed
qed

lemma letter_step_inv:
  assumes f: "list_all2 frame_matches stk (parseState s)"
    and t: "list_all (\<lambda>p. p \<noteq> parseObjectKey) (tl (parseState s))"
    and n: "in_letters (parseState s) p"
    and nx: "nxt \<in> {StateTr, StateTru, StateFa, StateFal, StateFals, StateNu, StateNul, StateEndValue}"
    and sc: "stateLetter expected nxt s c = (opc, sc)" and ne: "opc \<noteq> scanError"
  shows "walk_inv (walk_op opc c \<lparr>scan = sc, cur = p, stack = stk, failed = False\<rparr>)"
proof -
  from n obtain item where p: "p = Literal item" and le: "lettered item" and k: "\<not> at_key (parseState s)"
    by (auto simp: in_letters_def)
  have res: "opc = scanContinue" "sc = s\<lparr>step := nxt\<rparr>"
    using sc ne by (auto simp: stateLetter_def continue_in_def scan_error_def split: if_splits)
  have "cur_ok nxt (parseState s) (Literal (item @ [c]))"
    using nx lettered_snoc [OF le, of c] lettered_has_value [OF lettered_snoc [OF le, of c]] k
    by (auto simp: in_letters_def)
  then show ?thesis unfolding res p by (rule continue_literal_inv [OF f t])
qed

lemma stateEndValue_scanEnd:
  "fst (stateEndValue s c) = scanEnd \<Longrightarrow> parseState s = []"
  by (auto simp: stateEndValue_def scan_error_def split: list.splits parse_state.splits if_splits)

lemma stateBeginValue_not_scanEnd: "fst (stateBeginValue s c) \<noteq> scanEnd"
  by (auto simp: stateBeginValue_def pushParseState_def scan_error_def Let_def)

lemma stateBeginString_not_scanEnd: "fst (stateBeginString s c) \<noteq> scanEnd"
  by (auto simp: stateBeginString_def scan_error_def)

lemma end_ok:
  assumes inv: "walk_inv w" and e: "fst (scan_step (scan w) c) = scanEnd"
  shows "stack w = [] \<and> has_value (cur w)"
proof -
  have f: "list_all2 frame_matches (stack w) (parseState (scan w))"
    and ok: "cur_ok (step (scan w)) (parseState (scan w)) (cur w)"
    using inv by (auto simp: walk_inv_def)
  have empty: "parseState (scan w) = [] \<Longrightarrow> stack w = []" using f by auto
  have nk: "\<not> at_key []" by (simp add: at_key_def)
  have num: "in_number ps p \<Longrightarrow> has_value p" for ps p
    by (auto simp: in_number_def numeric_has_value)
  show ?thesis
  proof (cases "step (scan w)")
    case StateBeginValueOrEmpty
    then show ?thesis using e ok stateBeginValue_not_scanEnd [of "scan w" c]
      by (auto simp: scan_step_def stateBeginValueOrEmpty_def stateEndValue_def popParseState_def
          Let_def split: if_splits)
  next
    case StateBeginValue
    then show ?thesis using e stateBeginValue_not_scanEnd [of "scan w" c]
      by (simp add: scan_step_def)
  next
    case StateBeginStringOrEmpty
    then show ?thesis using e ok stateBeginString_not_scanEnd [of "scan w" c]
      by (auto simp: scan_step_def stateBeginStringOrEmpty_def stateEndValue_def popParseState_def
          Let_def split: if_splits)
  next
    case StateBeginString
    then show ?thesis using e stateBeginString_not_scanEnd [of "scan w" c]
      by (simp add: scan_step_def)
  next
    case StateEndValue
    then have "parseState (scan w) = []"
      using e stateEndValue_scanEnd [of "scan w" c] by (simp add: scan_step_def)
    then show ?thesis using StateEndValue ok empty nk by simp
  next
    case StateEndTop
    then show ?thesis using ok empty by simp
  next
    case StateInString
    then show ?thesis using e
      by (auto simp: scan_step_def stateInString_def continue_in_def scan_error_def split: if_splits)
  next
    case StateInStringEsc
    then show ?thesis using e
      by (auto simp: scan_step_def stateInStringEsc_def continue_in_def scan_error_def split: if_splits)
  next
    case StateInStringEscU
    then show ?thesis using e
      by (auto simp: scan_step_def stateHex_def continue_in_def scan_error_def split: if_splits)
  next
    case StateInStringEscU1
    then show ?thesis using e
      by (auto simp: scan_step_def stateHex_def continue_in_def scan_error_def split: if_splits)
  next
    case StateInStringEscU12
    then show ?thesis using e
      by (auto simp: scan_step_def stateHex_def continue_in_def scan_error_def split: if_splits)
  next
    case StateInStringEscU123
    then show ?thesis using e
      by (auto simp: scan_step_def stateHex_def continue_in_def scan_error_def split: if_splits)
  next
    case StateNeg
    then show ?thesis using e
      by (auto simp: scan_step_def stateNeg_def continue_in_def scan_error_def split: if_splits)
  next
    case State1
    then have "parseState (scan w) = []"
      using e stateEndValue_scanEnd [of "scan w" c]
      by (auto simp: scan_step_def state1_def state0_def continue_in_def split: if_splits)
    then show ?thesis using State1 ok empty num by auto
  next
    case State0
    then have "parseState (scan w) = []"
      using e stateEndValue_scanEnd [of "scan w" c]
      by (auto simp: scan_step_def state0_def continue_in_def split: if_splits)
    then show ?thesis using State0 ok empty num by auto
  next
    case StateDot
    then show ?thesis using e
      by (auto simp: scan_step_def stateDot_def continue_in_def scan_error_def split: if_splits)
  next
    case StateDot0
    then have "parseState (scan w) = []"
      using e stateEndValue_scanEnd [of "scan w" c]
      by (auto simp: scan_step_def stateDot0_def continue_in_def split: if_splits)
    then show ?thesis using StateDot0 ok empty num by auto
  next
    case StateE
    then show ?thesis using e
      by (auto simp: scan_step_def stateE_def stateESign_def continue_in_def scan_error_def split: if_splits)
  next
    case StateESign
    then show ?thesis using e
      by (auto simp: scan_step_def stateESign_def continue_in_def scan_error_def split: if_splits)
  next
    case StateE0
    then have "parseState (scan w) = []"
      using e stateEndValue_scanEnd [of "scan w" c]
      by (auto simp: scan_step_def stateE0_def continue_in_def split: if_splits)
    then show ?thesis using StateE0 ok empty num by auto
  next
    case StateError
    then show ?thesis using e by (simp add: scan_step_def)
  qed (use e in \<open>auto simp: scan_step_def stateLetter_def continue_in_def scan_error_def split: if_splits\<close>)
qed

lemma walk_step_inv:
  assumes inv: "walk_inv w" and sc: "scan_step (scan w) c = (opc, sc)"
    and ne: "opc \<noteq> scanError" "opc \<noteq> scanEnd"
  shows "walk_inv (walk_op opc c (w\<lparr>scan := sc\<rparr>))"
proof -
  obtain s p stk where w: "w = \<lparr>scan = s, cur = p, stack = stk, failed = False\<rparr>"
    using inv by (cases w) (auto simp: walk_inv_def)
  have w': "w\<lparr>scan := sc\<rparr> = \<lparr>scan = sc, cur = p, stack = stk, failed = False\<rparr>"
    by (simp add: w)
  have f: "list_all2 frame_matches stk (parseState s)"
    and t: "list_all (\<lambda>p. p \<noteq> parseObjectKey) (tl (parseState s))"
    and ok: "cur_ok (step s) (parseState s) p"
    using inv by (auto simp: walk_inv_def w)
  have sc': "scan_step s c = (opc, sc)" using sc by (simp add: w)
  note str = string_step_inv [OF f t _ _ _ sc' ne(1)]
  note num = number_step_inv [OF f t _ _ sc' ne]
  note ltr = letter_step_inv [OF f t _ _ _ ne(1)]
  show ?thesis unfolding w'
  proof (cases "step s")
    case StateBeginValueOrEmpty
    with ok obtain rest where p: "p = NoValue" and ps: "parseState s = parseArrayValue # rest" by auto
    have nk: "\<not> at_key (parseState s)" by (simp add: ps at_key_def)
    show "walk_inv (walk_op opc c \<lparr>scan = sc, cur = p, stack = stk, failed = False\<rparr>)"
    proof (cases "\<not> isSpace c \<and> c = CHR '']''")
      case True
      have nkr: "\<not> at_key rest" using t ps by (simp add: not_key_rest)
      from f ps obtain vs fs where stk: "stk = FArray vs # fs" and fs: "list_all2 frame_matches fs rest"
        by (cases stk) (auto simp: frame_matches_array)
      have "scan_step s c = (scanEndArray, popParseState s)"
        using True StateBeginValueOrEmpty ps
        by (simp add: scan_step_def stateBeginValueOrEmpty_def stateEndValue_def isSpace_def)
      then have res: "opc = scanEndArray" "sc = popParseState s" using sc' by simp_all
      show ?thesis unfolding res using ps p stk fs t nkr
        by (cases rest)
           (simp_all add: popParseState_def Let_def walk_op_def walk_inv_def finish_def has_value_def)
    next
      case False
      have "stateBeginValue s c = (opc, sc)"
      proof (cases "isSpace c")
        case True
        then have "stateBeginValue s c = (scanSkipSpace, s)" by (simp add: stateBeginValue_def)
        moreover have "scan_step s c = (scanSkipSpace, s)"
          using True StateBeginValueOrEmpty by (simp add: scan_step_def stateBeginValueOrEmpty_def)
        ultimately show ?thesis using sc' by simp
      next
        case nsp: False
        then have "c \<noteq> CHR '']''" using False by simp
        then show ?thesis using nsp sc' StateBeginValueOrEmpty
          by (simp add: scan_step_def stateBeginValueOrEmpty_def)
      qed
      from stateBeginValue_inv [OF f t nk this ne(1)] StateBeginValueOrEmpty ps p
      show ?thesis by simp
    qed
  next
    case StateBeginValue
    with ok have p: "p = NoValue" and nk: "\<not> at_key (parseState s)" by auto
    have "stateBeginValue s c = (opc, sc)" using sc' StateBeginValue by (simp add: scan_step_def)
    from stateBeginValue_inv [OF f t nk this ne(1)] StateBeginValue p
    show "walk_inv (walk_op opc c \<lparr>scan = sc, cur = p, stack = stk, failed = False\<rparr>)" by simp
  next
    case StateBeginString
    with ok have p: "p = NoValue" and k: "at_key (parseState s)" by auto
    have q: "string_in StateInString (Literal [CHR 0x22])" by (simp add: string_in_def)
    show "walk_inv (walk_op opc c \<lparr>scan = sc, cur = p, stack = stk, failed = False\<rparr>)"
      using sc' StateBeginString ne f t p k q
      by (auto simp: scan_step_def stateBeginString_def scan_error_def walk_op_def walk_inv_def
          split: if_splits)
  next
    case StateBeginStringOrEmpty
    with ok have p: "p = NoValue" and k: "at_key (parseState s)" by auto
    then obtain rest where ps: "parseState s = parseObjectKey # rest"
      by (auto simp: at_key_def split: list.splits parse_state.splits)
    from f ps obtain ms fs where stk: "stk = FObject ms None # fs" and fs: "list_all2 frame_matches fs rest"
      by (cases stk) (auto simp: frame_matches_key)
    have nkr: "\<not> at_key rest" using t ps by (simp add: not_key_rest)
    have q: "string_in StateInString (Literal [CHR 0x22])" by (simp add: string_in_def)
    show "walk_inv (walk_op opc c \<lparr>scan = sc, cur = p, stack = stk, failed = False\<rparr>)"
    proof (cases "\<not> isSpace c \<and> c = CHR ''}''")
      case True
      then have "scan_step s c = (scanEndObject, popParseState (s\<lparr>parseState := parseObjectValue # rest\<rparr>))"
        using StateBeginStringOrEmpty ps
        by (simp add: scan_step_def stateBeginStringOrEmpty_def stateEndValue_def isSpace_def)
      then have res: "opc = scanEndObject" "sc = popParseState (s\<lparr>parseState := parseObjectValue # rest\<rparr>)"
        using sc' by simp_all
      show ?thesis unfolding res using ps p stk fs t nkr
        by (cases rest)
           (simp_all add: popParseState_def Let_def walk_op_def walk_inv_def finish_def has_value_def)
    next
      case False
      then show ?thesis using sc' StateBeginStringOrEmpty ne f t p k q
        by (auto simp: scan_step_def stateBeginStringOrEmpty_def stateBeginString_def scan_error_def
            walk_op_def walk_inv_def split: if_splits)
    qed
  next
    case StateEndValue
    then have "stateEndValue s c = (opc, sc)" using sc' by (simp add: scan_step_def)
    moreover have "if at_key (parseState s) then key_literal p else has_value p"
      using ok StateEndValue by simp
    ultimately show "walk_inv (walk_op opc c \<lparr>scan = sc, cur = p, stack = stk, failed = False\<rparr>)"
      using stateEndValue_inv [OF f t _ _ ne] by blast
  next
    case StateEndTop
    then show "walk_inv (walk_op opc c \<lparr>scan = sc, cur = p, stack = stk, failed = False\<rparr>)"
      using sc' ne by (auto simp: scan_step_def stateEndTop_def split: if_splits)
  next
    case StateError
    then show "walk_inv (walk_op opc c \<lparr>scan = sc, cur = p, stack = stk, failed = False\<rparr>)"
      using sc' ne by (simp add: scan_step_def)
  next
    case StateInString
    then show "walk_inv (walk_op opc c \<lparr>scan = sc, cur = p, stack = stk, failed = False\<rparr>)"
      using ok by (intro str [of StateInString]) auto
  next
    case StateInStringEsc
    then show "walk_inv (walk_op opc c \<lparr>scan = sc, cur = p, stack = stk, failed = False\<rparr>)"
      using ok by (intro str [of StateInStringEsc]) auto
  next
    case StateInStringEscU
    then show "walk_inv (walk_op opc c \<lparr>scan = sc, cur = p, stack = stk, failed = False\<rparr>)"
      using ok by (intro str [of StateInStringEscU]) auto
  next
    case StateInStringEscU1
    then show "walk_inv (walk_op opc c \<lparr>scan = sc, cur = p, stack = stk, failed = False\<rparr>)"
      using ok by (intro str [of StateInStringEscU1]) auto
  next
    case StateInStringEscU12
    then show "walk_inv (walk_op opc c \<lparr>scan = sc, cur = p, stack = stk, failed = False\<rparr>)"
      using ok by (intro str [of StateInStringEscU12]) auto
  next
    case StateInStringEscU123
    then show "walk_inv (walk_op opc c \<lparr>scan = sc, cur = p, stack = stk, failed = False\<rparr>)"
      using ok by (intro str [of StateInStringEscU123]) auto
  next
    case StateNeg
    then show "walk_inv (walk_op opc c \<lparr>scan = sc, cur = p, stack = stk, failed = False\<rparr>)"
      using ok by (intro num) auto
  next
    case State1
    then show "walk_inv (walk_op opc c \<lparr>scan = sc, cur = p, stack = stk, failed = False\<rparr>)"
      using ok by (intro num) auto
  next
    case State0
    then show "walk_inv (walk_op opc c \<lparr>scan = sc, cur = p, stack = stk, failed = False\<rparr>)"
      using ok by (intro num) auto
  next
    case StateDot
    then show "walk_inv (walk_op opc c \<lparr>scan = sc, cur = p, stack = stk, failed = False\<rparr>)"
      using ok by (intro num) auto
  next
    case StateDot0
    then show "walk_inv (walk_op opc c \<lparr>scan = sc, cur = p, stack = stk, failed = False\<rparr>)"
      using ok by (intro num) auto
  next
    case StateE
    then show "walk_inv (walk_op opc c \<lparr>scan = sc, cur = p, stack = stk, failed = False\<rparr>)"
      using ok by (intro num) auto
  next
    case StateESign
    then show "walk_inv (walk_op opc c \<lparr>scan = sc, cur = p, stack = stk, failed = False\<rparr>)"
      using ok by (intro num) auto
  next
    case StateE0
    then show "walk_inv (walk_op opc c \<lparr>scan = sc, cur = p, stack = stk, failed = False\<rparr>)"
      using ok by (intro num) auto
  next
    case StateT
    then show "walk_inv (walk_op opc c \<lparr>scan = sc, cur = p, stack = stk, failed = False\<rparr>)"
      using ok sc' by (intro ltr [of _ StateTr "CHR ''r''"]) (auto simp: scan_step_def)
  next
    case StateTr
    then show "walk_inv (walk_op opc c \<lparr>scan = sc, cur = p, stack = stk, failed = False\<rparr>)"
      using ok sc' by (intro ltr [of _ StateTru "CHR ''u''"]) (auto simp: scan_step_def)
  next
    case StateTru
    then show "walk_inv (walk_op opc c \<lparr>scan = sc, cur = p, stack = stk, failed = False\<rparr>)"
      using ok sc' by (intro ltr [of _ StateEndValue "CHR ''e''"]) (auto simp: scan_step_def)
  next
    case StateF
    then show "walk_inv (walk_op opc c \<lparr>scan = sc, cur = p, stack = stk, failed = False\<rparr>)"
      using ok sc' by (intro ltr [of _ StateFa "CHR ''a''"]) (auto simp: scan_step_def)
  next
    case StateFa
    then show "walk_inv (walk_op opc c \<lparr>scan = sc, cur = p, stack = stk, failed = False\<rparr>)"
      using ok sc' by (intro ltr [of _ StateFal "CHR ''l''"]) (auto simp: scan_step_def)
  next
    case StateFal
    then show "walk_inv (walk_op opc c \<lparr>scan = sc, cur = p, stack = stk, failed = False\<rparr>)"
      using ok sc' by (intro ltr [of _ StateFals "CHR ''s''"]) (auto simp: scan_step_def)
  next
    case StateFals
    then show "walk_inv (walk_op opc c \<lparr>scan = sc, cur = p, stack = stk, failed = False\<rparr>)"
      using ok sc' by (intro ltr [of _ StateEndValue "CHR ''e''"]) (auto simp: scan_step_def)
  next
    case StateN
    then show "walk_inv (walk_op opc c \<lparr>scan = sc, cur = p, stack = stk, failed = False\<rparr>)"
      using ok sc' by (intro ltr [of _ StateNu "CHR ''u''"]) (auto simp: scan_step_def)
  next
    case StateNu
    then show "walk_inv (walk_op opc c \<lparr>scan = sc, cur = p, stack = stk, failed = False\<rparr>)"
      using ok sc' by (intro ltr [of _ StateNul "CHR ''l''"]) (auto simp: scan_step_def)
  next
    case StateNul
    then show "walk_inv (walk_op opc c \<lparr>scan = sc, cur = p, stack = stk, failed = False\<rparr>)"
      using ok sc' by (intro ltr [of _ StateEndValue "CHR ''l''"]) (auto simp: scan_step_def)
  qed
qed


section \<open>Decode does not panic\<close>


lemma walk_byte_step:
  "\<not> failed w \<Longrightarrow> scan_step (scan w) c = (opc, sc) \<Longrightarrow>
   walk_byte w c = walk_op opc c (w\<lparr>scan := sc\<rparr>)"
  by (simp add: walk_byte_def)

lemma walk_op_scan: "scan (walk_op opc c w) = scan w"
  by (auto simp: walk_op_def walk_fail_def split: opcode.splits pending.splits list.splits
      frame.splits option.splits)

lemma closed_value:
  assumes inv: "walk_inv w" and "cur w = Finished v"
  shows "stateEndValue (scan w) (CHR '' '') =
           (if parseState (scan w) = [] then (scanEnd, (scan w)\<lparr>step := StateEndTop\<rparr>)
            else (scanSkipSpace, scan w))"
    and "parseState (scan w) = [] \<Longrightarrow> stack w = [] \<and> has_value (cur w)"
proof -
  have f: "list_all2 frame_matches (stack w) (parseState (scan w))"
    and ok: "cur_ok (step (scan w)) (parseState (scan w)) (cur w)"
    using inv by (auto simp: walk_inv_def)
  have sp: "isSpace (CHR '' '')" by (simp add: isSpace_def)
  have st: "step (scan w) = StateEndValue \<or> step (scan w) = StateEndTop"
    using ok assms(2)
    by (cases "step (scan w)")
       (auto simp: string_in_def in_number_def in_letters_def)
  show "parseState (scan w) = [] \<Longrightarrow> stack w = [] \<and> has_value (cur w)"
    using f assms(2) by (auto simp: has_value_def finish_def)
  have ne: "parseState (scan w) \<noteq> [] \<Longrightarrow> step (scan w) = StateEndValue"
    using st ok by auto
  show "stateEndValue (scan w) (CHR '' '') =
           (if parseState (scan w) = [] then (scanEnd, (scan w)\<lparr>step := StateEndTop\<rparr>)
            else (scanSkipSpace, scan w))"
  proof (cases "parseState (scan w)")
    case Nil
    then show ?thesis by (simp add: stateEndValue_def stateEndTop_def sp)
  next
    case (Cons a list)
    then have "(scan w)\<lparr>step := StateEndValue\<rparr> = scan w" using ne by (cases "scan w") simp
    then show ?thesis using Cons by (simp add: stateEndValue_def sp)
  qed
qed

lemma walk_op_end_cur:
  assumes "opc = scanEndObject \<or> opc = scanEndArray" "\<not> failed (walk_op opc c w)"
  shows "\<exists>v. cur (walk_op opc c w) = Finished v"
  using assms
  by (auto simp: walk_op_def walk_fail_def split: option.splits list.splits frame.splits prod.splits)

lemma readValue_walk:
  "walk_inv w \<Longrightarrow> readValue_from (scan w) bs ns k = Inr n \<Longrightarrow>
   \<exists>m. n = k + m \<and> m \<le> length bs \<and>
       stack (foldl walk_byte w (take m bs)) = [] \<and>
       \<not> failed (foldl walk_byte w (take m bs)) \<and>
       has_value (cur (foldl walk_byte w (take m bs)))"
proof (induction bs arbitrary: w ns k)
  case Nil
  then have "fst (scan_step (scan w) (CHR '' '')) = scanEnd" "n = k"
    by (auto split: if_splits)
  with end_ok [OF Nil.prems(1)] Nil.prems(1) show ?case
    by (auto simp: walk_inv_def)
next
  case (Cons c cs)
  obtain opc sc where sc: "scan_step (scan w) c = (opc, sc)" by (cases "scan_step (scan w) c")
  have nf: "\<not> failed w" using Cons.prems(1) by (simp add: walk_inv_def)
  let ?w1 = "walk_op opc c (w\<lparr>scan := sc\<rparr>)"
  have wb: "walk_byte w c = ?w1" by (rule walk_byte_step [OF nf sc])
  have sw1: "scan ?w1 = sc" by (simp add: walk_op_scan)
  show ?case
  proof (cases "opc = scanEnd")
    case True
    then have "n = k" using Cons.prems(2) sc by simp
    moreover have "stack w = [] \<and> has_value (cur w)"
      using end_ok [OF Cons.prems(1), of c] sc True by simp
    ultimately show ?thesis using nf by (intro exI [of _ 0]) simp
  next
    case notEnd: False
    have notErr: "opc \<noteq> scanError" using Cons.prems(2) sc by auto
    have inv1: "walk_inv ?w1" by (rule walk_step_inv [OF Cons.prems(1) sc notErr notEnd])
    show ?thesis
    proof (cases "opc = scanEndObject \<or> opc = scanEndArray")
      case True
      have "\<not> failed ?w1" using inv1 by (simp add: walk_inv_def)
      from walk_op_end_cur [OF True this] obtain v where fin: "cur ?w1 = Finished v" by blast
      note cv = closed_value [OF inv1 fin, unfolded sw1]
      show ?thesis
      proof (cases "parseState sc = []")
        case e: True
        then have "n = Suc k" using Cons.prems(2) sc True cv(1) by auto
        moreover have "stack ?w1 = [] \<and> has_value (cur ?w1)" using cv(2) e by simp
        ultimately show ?thesis using wb inv1
          by (intro exI [of _ 1]) (simp add: walk_inv_def)
      next
        case ne: False
        then have "readValue_from (scan ?w1) cs True (Suc k) = Inr n"
          using Cons.prems(2) sc True cv(1) sw1 by auto
        from Cons.IH [OF inv1 this] obtain m where m: "n = Suc k + m" "m \<le> length cs"
          "stack (foldl walk_byte ?w1 (take m cs)) = []"
          "\<not> failed (foldl walk_byte ?w1 (take m cs))"
          "has_value (cur (foldl walk_byte ?w1 (take m cs)))" by blast
        then show ?thesis using wb by (intro exI [of _ "Suc m"]) simp
      qed
    next
      case False
      then have "readValue_from (scan ?w1) cs (ns \<or> \<not> isSpace c) (Suc k) = Inr n"
        using Cons.prems(2) sc notEnd notErr sw1 by (cases opc) auto
      from Cons.IH [OF inv1 this] obtain m where m: "n = Suc k + m" "m \<le> length cs"
          "stack (foldl walk_byte ?w1 (take m cs)) = []"
          "\<not> failed (foldl walk_byte ?w1 (take m cs))"
          "has_value (cur (foldl walk_byte ?w1 (take m cs)))" by blast
      then show ?thesis using wb by (intro exI [of _ "Suc m"]) simp
    qed
  qed
qed

lemma valueOf_readValue:
  assumes "readValue b = Inr n"
  shows "\<exists>v. valueOf (take n b) = Some v"
proof -
  let ?w0 = "\<lparr>scan = scanner_reset, cur = NoValue, stack = [], failed = False\<rparr>"
  have "walk_inv ?w0"
    by (simp add: walk_inv_def scanner_reset_def at_key_def)
  moreover have "readValue_from (scan ?w0) b False 0 = Inr n"
    using assms by (simp add: readValue_def)
  ultimately obtain m where "n = 0 + m" "stack (foldl walk_byte ?w0 (take m b)) = []"
    "\<not> failed (foldl walk_byte ?w0 (take m b))" "has_value (cur (foldl walk_byte ?w0 (take m b)))"
    using readValue_walk [of ?w0 b False 0 n] by blast
  then show ?thesis
    by (auto simp: valueOf_def Let_def has_value_def)
qed

lemma Decode_no_panic: "Decode d b tj \<noteq> DecodePanic"
  using valueOf_readValue [of b]
  by (auto simp: Decode_def split: sum.splits option.splits prod.splits)


section \<open>The results of marshal\<close>




lemma readValue_bad: "readValue badJSONString = Inr 58"
  by code_simp

lemma valueOf_bad:
  "valueOf badJSONString =
     Some (JObject [(''name'', JString ''michael''),
                    (''address'', JString ''1234 Shady Lane Boston, MA'')])"
  by code_simp


lemma length_bad: "length badJSONString = 58"
  by (simp add: badJSONString_def)

lemma isNameField_name: "isNameField ''name''"
  by (simp add: isNameField_def)

lemma isNameField_address: "\<not> isNameField ''address''"
  by (simp add: isNameField_def simpleLetterEqualFold_def)


lemma marshal_bad:
  "marshal badJSONString (Some tj) =
     (Decoded (Some (UnknownField ''address'')) (Some (tj\<lparr>Name := ''michael''\<rparr>)), [''got an err ''])"
  by (simp add: marshal_def Decode_def readValue_bad length_bad valueOf_bad unmarshal_def
      member_def storeName_def isNameField_name isNameField_address saveError_def)






lemma members_unknown:
  "list_all (\<lambda>kv. \<not> isNameField (fst kv)) ms \<Longrightarrow>
   foldl (member True) (Some e, t) ms = (Some e, t)"
  by (induction ms) (simp_all add: member_def saveError_def)

text \<open>
  C9.  Decoding an object that has a string under \<open>name\<close> first and then only
  unknown keys (at least one) saves the unknown-field error of the first of them and
  stores the name all the same.  \<open>badJSONString\<close> is such an input: \<open>marshal\<close>
  returns the error and the target's \<open>Name\<close> is \<open>"michael"\<close>, whatever it was
  before.
\<close>

theorem marshal_not_atomic:
  "(ms \<noteq> [] \<and> list_all (\<lambda>kv. \<not> isNameField (fst kv)) ms \<longrightarrow>
      unmarshal True (JObject ((''name'', JString s) # ms)) tj =
        (Some (UnknownField (fst (hd ms))), tj\<lparr>Name := s\<rparr>))
   \<and> valueOf badJSONString =
       Some (JObject [(''name'', JString ''michael''),
                      (''address'', JString ''1234 Shady Lane Boston, MA'')])
   \<and> marshal badJSONString (Some tj) =
       (Decoded (Some (UnknownField ''address'')) (Some (tj\<lparr>Name := ''michael''\<rparr>)),
        [''got an err ''])"
proof (intro conjI impI)
  assume a: "ms \<noteq> [] \<and> list_all (\<lambda>kv. \<not> isNameField (fst kv)) ms"
  then obtain kv rest where ms: "ms = kv # rest" by (cases ms) auto
  then have "foldl (member True) (None, tj\<lparr>Name := s\<rparr>) ms =
               foldl (member True) (Some (UnknownField (fst kv)), tj\<lparr>Name := s\<rparr>) rest"
    using a by (simp add: member_def saveError_def)
  also have "\<dots> = (Some (UnknownField (fst kv)), tj\<lparr>Name := s\<rparr>)"
    using a ms by (intro members_unknown) simp
  finally show "unmarshal True (JObject ((''name'', JString s) # ms)) tj =
        (Some (UnknownField (fst (hd ms))), tj\<lparr>Name := s\<rparr>)"
    using ms by (simp add: unmarshal_def member_def storeName_def isNameField_name)
qed (rule valueOf_bad, rule marshal_bad)

theorem marshal_not_atomic_witness:
  "unmarshal True (JObject [(''name'', JString ''michael''),
                            (''address'', JString ''1234 Shady Lane Boston, MA'')]) \<lparr>Name = []\<rparr> =
     (Some (UnknownField ''address''), \<lparr>Name = ''michael''\<rparr>)
   \<and> marshal badJSONString (Some \<lparr>Name = []\<rparr>) =
       (Decoded (Some (UnknownField ''address'')) (Some \<lparr>Name = ''michael''\<rparr>), [''got an err ''])"
proof -
  let ?ms = "[(''address'', JString ''1234 Shady Lane Boston, MA'')]"
  have "?ms \<noteq> [] \<and> list_all (\<lambda>kv. \<not> isNameField (fst kv)) ?ms"
    by (simp add: isNameField_address)
  with marshal_not_atomic [of ?ms "''michael''" "\<lparr>Name = []\<rparr>"]
  have "unmarshal True (JObject ((''name'', JString ''michael'') # ?ms)) \<lparr>Name = []\<rparr> =
        (Some (UnknownField (fst (hd ?ms))), \<lparr>Name = []\<rparr>\<lparr>Name := ''michael''\<rparr>)"
    by blast
  moreover from marshal_not_atomic [of ?ms "''michael''" "\<lparr>Name = []\<rparr>"]
  have "marshal badJSONString (Some \<lparr>Name = []\<rparr>) =
       (Decoded (Some (UnknownField ''address'')) (Some (\<lparr>Name = []\<rparr>\<lparr>Name := ''michael''\<rparr>)),
        [''got an err ''])"
    by blast
  ultimately show ?thesis by simp
qed

end
